theory Spec2Isabelle
  imports Complex_Main
begin

section \<open>MindGames problem generator: data model\<close>

text \<open>
  The generator (\<^verbatim>\<open>problem-generator\<close>) and its types (\<^verbatim>\<open>types/index.ts\<close>).
  Numbers that the generator computes with (bounds, operands, values, counters) are
  integers, as in every configuration of the repository; the mix percentages and the
  draws of \<^verbatim>\<open>Math.random()\<close> are reals. Arithmetic is exact: the rounding of IEEE
  doubles is not part of the model (\<^verbatim>\<open>Math.floor(maxResult * 0.1)\<close> is
  \<open>maxResult div 10\<close>, \<^verbatim>\<open>Math.floor(maxResult * 0.4)\<close> is \<open>4 * maxResult div 10\<close>).
\<close>

datatype Operation = Add | Subtract | Multiply | Divide

datatype OperationFrequency = Never | Rare | Normal | Often | VeryOften

datatype NotationStyle = Operators | Arrows | Equals

record OperationConfig =
  enabled :: bool
  frequency :: OperationFrequency
  minValue :: int
  maxValue :: int

text \<open>The object \<^verbatim>\<open>config.operations\<close>, one entry per operation.\<close>

record Operations =
  ops_add :: OperationConfig
  ops_subtract :: OperationConfig
  ops_multiply :: OperationConfig
  ops_divide :: OperationConfig

record OperationMix =
  mix_add :: real
  mix_subtract :: real
  mix_multiply :: real
  mix_divide :: real

record GameConfig =
  difficultyLevel :: int
  maxResult :: int
  chainLength :: int
  chainCount :: int
  notationStyle :: NotationStyle
  showSumOfDigits :: bool
  showResultLines :: bool
  decorativeCharacter :: string
  timeLimit :: int
  operations :: Operations
  operationMix :: OperationMix
  allowNegativeResults :: bool

record Problem =
  problemId :: string
  startValue :: int
  operation :: Operation
  operand :: int
  result :: int

record ProblemChain =
  chainId :: string
  problems :: "Problem list"
  startingNumber :: int

text \<open>The field \<^verbatim>\<open>createdAt\<close> (the wall clock) is left out of the worksheet.\<close>

record Worksheet =
  worksheetId :: string
  chains :: "ProblemChain list"
  config :: GameConfig

text \<open>\<^verbatim>\<open>config.operations[operation]\<close> and \<^verbatim>\<open>config.operationMix[operation]\<close>.\<close>

definition operationsAt :: "Operations \<Rightarrow> Operation \<Rightarrow> OperationConfig" where
  "operationsAt ops op =
     (case op of
        Add \<Rightarrow> ops_add ops
      | Subtract \<Rightarrow> ops_subtract ops
      | Multiply \<Rightarrow> ops_multiply ops
      | Divide \<Rightarrow> ops_divide ops)"

definition operationMixAt :: "OperationMix \<Rightarrow> Operation \<Rightarrow> real" where
  "operationMixAt mix op =
     (case op of
        Add \<Rightarrow> mix_add mix
      | Subtract \<Rightarrow> mix_subtract mix
      | Multiply \<Rightarrow> mix_multiply mix
      | Divide \<Rightarrow> mix_divide mix)"

definition DEFAULT_CONFIG :: GameConfig where
  "DEFAULT_CONFIG =
     \<lparr> difficultyLevel = 1, maxResult = 100, chainLength = 6, chainCount = 5,
       notationStyle = Operators, showSumOfDigits = False, showResultLines = False,
       decorativeCharacter = [], timeLimit = 0,
       operations =
         \<lparr> ops_add = \<lparr> enabled = True, frequency = Normal, minValue = 1, maxValue = 20 \<rparr>,
           ops_subtract = \<lparr> enabled = True, frequency = Normal, minValue = 1, maxValue = 20 \<rparr>,
           ops_multiply = \<lparr> enabled = True, frequency = Normal, minValue = 2, maxValue = 10 \<rparr>,
           ops_divide = \<lparr> enabled = True, frequency = Normal, minValue = 2, maxValue = 10 \<rparr> \<rparr>,
       operationMix = \<lparr> mix_add = 40, mix_subtract = 40, mix_multiply = 10, mix_divide = 10 \<rparr>,
       allowNegativeResults = False \<rparr>"


section \<open>The random source\<close>

text \<open>
  \<^verbatim>\<open>Math.random()\<close> is the only source of randomness. The model makes it explicit:
  \<open>rnd\<close> is the sequence of values that the calls return, and every function that draws
  takes the number \<open>s\<close> of draws made so far and returns it updated. The contract of
  \<^verbatim>\<open>Math.random()\<close> is that every value lies in \<open>[0, 1)\<close>: the model is the program
  for the sources \<open>rnd\<close> with \<open>unitDraws rnd\<close>, and the statements that depend on the
  range of a draw assume it.
\<close>

type_synonym rng = "nat \<Rightarrow> real"

definition unitDraws :: "rng \<Rightarrow> bool" where
  "unitDraws rnd = (\<forall>k. 0 \<le> rnd k \<and> rnd k < 1)"

definition Math_random :: "rng \<Rightarrow> nat \<Rightarrow> real \<times> nat" where
  "Math_random rnd s = (rnd s, s + 1)"

text \<open>
  \<^verbatim>\<open>Math.random().toString(36).substring(2, 11)\<close>. A draw prints as \<^verbatim>\<open>0\<close> when it is
  zero and as \<^verbatim>\<open>0.\<close> followed by its digits in base 36 otherwise; the printing stops
  when nothing remains. Only the first nine digits survive \<^verbatim>\<open>substring(2, 11)\<close>, so
  \<open>toString36\<close> prints at most eleven. The digits are those of the exact expansion: how
  an engine rounds the end of a long expansion is not modelled (a draw such as \<open>0.5\<close>,
  with the one digit \<^verbatim>\<open>i\<close>, prints exactly so).
\<close>

definition digitChars :: string where
  "digitChars = ''0123456789abcdefghijklmnopqrstuvwxyz''"

fun fractionDigits :: "nat \<Rightarrow> real \<Rightarrow> string" where
  "fractionDigits 0 f = []"
| "fractionDigits (Suc k) f =
     (if f = 0 then []
      else (let digit = \<lfloor>f * 36\<rfloor>
            in (digitChars ! nat digit) # fractionDigits k (f * 36 - of_int digit)))"

definition toString36 :: "real \<Rightarrow> string" where
  "toString36 r = (if r = 0 then ''0'' else ''0.'' @ fractionDigits 11 r)"

definition substring :: "nat \<Rightarrow> nat \<Rightarrow> string \<Rightarrow> string" where
  "substring a b str = take (b - a) (drop a str)"

definition generateId :: "rng \<Rightarrow> nat \<Rightarrow> string \<times> nat" where
  "generateId rnd s =
     (case Math_random rnd s of (r, s1) \<Rightarrow> (substring 2 11 (toString36 r), s1))"

definition randomInt :: "rng \<Rightarrow> nat \<Rightarrow> int \<Rightarrow> int \<Rightarrow> int \<times> nat" where
  "randomInt rnd s mn mx =
     (case Math_random rnd s of (r, s1) \<Rightarrow> (\<lfloor>r * of_int (mx - mn + 1)\<rfloor> + mn, s1))"


section \<open>Operation selection\<close>

definition selectOperationByMix :: "rng \<Rightarrow> nat \<Rightarrow> OperationMix \<Rightarrow> Operation \<times> nat" where
  "selectOperationByMix rnd s mix =
     (case Math_random rnd s of (r, s1) \<Rightarrow>
        (let random = r * 100;
             cumulative = 0 + mix_add mix
         in if random < cumulative then (Add, s1)
            else let cumulative = cumulative + mix_subtract mix
                 in if random < cumulative then (Subtract, s1)
                    else let cumulative = cumulative + mix_multiply mix
                         in if random < cumulative then (Multiply, s1)
                            else (Divide, s1)))"


section \<open>Operand search\<close>

text \<open>
  The remainder \<^verbatim>\<open>a % b\<close> of JavaScript: \<open>NaN\<close> (here \<open>None\<close>) for a zero divisor,
  and otherwise the remainder of the division that truncates, with the sign of \<open>a\<close>.
\<close>

definition jsRem :: "int \<Rightarrow> int \<Rightarrow> int option" where
  "jsRem a b = (if b = 0 then None else Some (sgn a * (\<bar>a\<bar> mod \<bar>b\<bar>)))"

text \<open>
  \<^verbatim>\<open>xs[i]\<close>: \<^verbatim>\<open>undefined\<close> (here \<open>None\<close>) out of range. The generator only indexes
  with \<^verbatim>\<open>randomInt(0, xs.length - 1)\<close> on a non-empty array, which is in range
  for every draw in \<open>[0, 1)\<close>.
\<close>

definition arrayAt :: "'a list \<Rightarrow> int \<Rightarrow> 'a option" where
  "arrayAt xs i = (if 0 \<le> i \<and> i < int (length xs) then Some (xs ! nat i) else None)"

text \<open>
  The divisors that the loop of the \<^verbatim>\<open>divide\<close> case collects, \<open>d\<close> running from
  \<open>mn\<close> to \<open>min mx currentValue\<close>. Where \<^verbatim>\<open>currentValue % d === 0\<close> the quotient
  \<^verbatim>\<open>currentValue / d\<close> is the integer \<open>currentValue div d\<close>.
\<close>

definition validDivisors :: "int \<Rightarrow> int \<Rightarrow> int \<Rightarrow> int \<Rightarrow> int list" where
  "validDivisors mn mx currentValue maxRes =
     filter (\<lambda>d. jsRem currentValue d = Some 0 \<and>
                 (let res = currentValue div d in res \<ge> 1 \<and> res \<le> maxRes))
            [mn..min mx currentValue]"

text \<open>\<open>None\<close> is the \<^verbatim>\<open>null\<close> of the source: no valid operand.\<close>

definition generateOperand ::
  "rng \<Rightarrow> nat \<Rightarrow> Operation \<Rightarrow> int \<Rightarrow> GameConfig \<Rightarrow> int option \<times> nat" where
  "generateOperand rnd s op currentValue cfg =
     (let opConfig = operationsAt (operations cfg) op;
          mn = minValue opConfig;
          mx = maxValue opConfig
      in case op of
           Add \<Rightarrow>
             (let maxAddend = maxResult cfg - currentValue
              in if maxAddend < mn then (None, s)
                 else let mx = min mx maxAddend
                      in if mx < mn then (None, s)
                         else (case randomInt rnd s mn mx of (v, s1) \<Rightarrow> (Some v, s1)))
         | Subtract \<Rightarrow>
             (let minResult = (if allowNegativeResults cfg then - maxResult cfg else 1);
                  maxSubtrahend = currentValue - minResult
              in if maxSubtrahend < mn then (None, s)
                 else let mx = min mx maxSubtrahend
                      in if mx < mn then (None, s)
                         else (case randomInt rnd s mn mx of (v, s1) \<Rightarrow> (Some v, s1)))
         | Multiply \<Rightarrow>
             (if currentValue = 0
              then (case randomInt rnd s mn mx of (v, s1) \<Rightarrow> (Some v, s1))
              else let maxMultiplier = maxResult cfg div currentValue
                   in if maxMultiplier < mn then (None, s)
                      else let mx = min mx maxMultiplier
                           in if mx < mn then (None, s)
                              else (case randomInt rnd s mn mx of (v, s1) \<Rightarrow> (Some v, s1)))
         | Divide \<Rightarrow>
             (if currentValue \<le> 0 then (None, s)
              else let divisors = validDivisors mn mx currentValue (maxResult cfg)
                   in if length divisors = 0 then (None, s)
                      else (case randomInt rnd s 0 (int (length divisors) - 1) of
                              (i, s1) \<Rightarrow> (arrayAt divisors i, s1))))"


section \<open>Problem construction\<close>

text \<open>
  \<^verbatim>\<open>calculateResult\<close>. The quotient \<^verbatim>\<open>value / operand\<close> is a number in every case;
  \<open>None\<close> stands for one that is not an integer (a proper fraction, an infinity or
  \<open>NaN\<close>), which only \<^verbatim>\<open>divide\<close> can give.
\<close>

definition calculateResult :: "int \<Rightarrow> Operation \<Rightarrow> int \<Rightarrow> int option" where
  "calculateResult val op opnd =
     (case op of
        Add \<Rightarrow> Some (val + opnd)
      | Subtract \<Rightarrow> Some (val - opnd)
      | Multiply \<Rightarrow> Some (val * opnd)
      | Divide \<Rightarrow> (if opnd \<noteq> 0 \<and> opnd dvd val then Some (val div opnd) else None))"

text \<open>
  \<^verbatim>\<open>tryGenerateProblem\<close>. A quotient that is not an integer is rejected by the last of
  the three checks at the latest (\<^verbatim>\<open>operation === 'divide' && !Number.isInteger(result)\<close>),
  and each of the three returns \<^verbatim>\<open>null\<close>. An operand \<^verbatim>\<open>undefined\<close> from an index out of
  range would end there too.
\<close>

definition tryGenerateProblem ::
  "rng \<Rightarrow> nat \<Rightarrow> int \<Rightarrow> Operation \<Rightarrow> GameConfig \<Rightarrow> Problem option \<times> nat" where
  "tryGenerateProblem rnd s currentValue op cfg =
     (case generateOperand rnd s op currentValue cfg of
        (None, s1) \<Rightarrow> (None, s1)
      | (Some opnd, s1) \<Rightarrow>
          (case calculateResult currentValue op opnd of
             None \<Rightarrow> (None, s1)
           | Some res \<Rightarrow>
               if res < 1 \<and> \<not> allowNegativeResults cfg then (None, s1)
               else if res > maxResult cfg then (None, s1)
               else (case generateId rnd s1 of
                       (newId, s2) \<Rightarrow>
                         (Some \<lparr> problemId = newId, startValue = currentValue,
                                 operation = op, operand = opnd, result = res \<rparr>,
                          s2))))"


section \<open>Single-problem generation\<close>

text \<open>The loop of random attempts, \<open>attempt\<close> counting up to \<open>maxAttempts\<close>.\<close>

function randomAttempts ::
  "rng \<Rightarrow> nat \<Rightarrow> int \<Rightarrow> GameConfig \<Rightarrow> int \<Rightarrow> int \<Rightarrow> Problem option \<times> nat" where
  "randomAttempts rnd s currentValue cfg maxAttempts attempt =
     (if attempt < maxAttempts
      then (case selectOperationByMix rnd s (operationMix cfg) of
              (op, s1) \<Rightarrow>
                (case tryGenerateProblem rnd s1 currentValue op cfg of
                   (Some problem, s2) \<Rightarrow> (Some problem, s2)
                 | (None, s2) \<Rightarrow>
                     randomAttempts rnd s2 currentValue cfg maxAttempts (attempt + 1)))
      else (None, s))"
  by pat_completeness auto
termination
  by (relation "measure (\<lambda>(rnd, s, currentValue, cfg, maxAttempts, attempt).
                   nat (maxAttempts - attempt))") auto

declare randomAttempts.simps [simp del]

text \<open>
  \<^verbatim>\<open>[...operations].sort((a, b) => mix[b] - mix[a])\<close>: a stable sort, the larger share
  first.
\<close>

definition sortedOps :: "OperationMix \<Rightarrow> Operation list" where
  "sortedOps mix = sort_key (\<lambda>op. - operationMixAt mix op)
                            [Add, Subtract, Multiply, Divide]"

fun tryOperations ::
  "rng \<Rightarrow> nat \<Rightarrow> int \<Rightarrow> GameConfig \<Rightarrow> Operation list \<Rightarrow> Problem option \<times> nat" where
  "tryOperations rnd s currentValue cfg [] = (None, s)"
| "tryOperations rnd s currentValue cfg (op # rest) =
     (case tryGenerateProblem rnd s currentValue op cfg of
        (Some problem, s1) \<Rightarrow> (Some problem, s1)
      | (None, s1) \<Rightarrow> tryOperations rnd s1 currentValue cfg rest)"

definition simpleConfig :: "GameConfig \<Rightarrow> GameConfig" where
  "simpleConfig cfg =
     cfg \<lparr> operations :=
       (operations cfg)
         \<lparr> ops_add := (ops_add (operations cfg)) \<lparr> minValue := 1, maxValue := 5 \<rparr>,
           ops_subtract := (ops_subtract (operations cfg)) \<lparr> minValue := 1, maxValue := 5 \<rparr> \<rparr> \<rparr>"

definition generateProblem ::
  "rng \<Rightarrow> nat \<Rightarrow> int \<Rightarrow> GameConfig \<Rightarrow> int \<Rightarrow> Problem option \<times> nat" where
  "generateProblem rnd s currentValue cfg maxAttempts =
     (case randomAttempts rnd s currentValue cfg maxAttempts 0 of
        (Some problem, s1) \<Rightarrow> (Some problem, s1)
      | (None, s1) \<Rightarrow>
          (case tryOperations rnd s1 currentValue cfg (sortedOps (operationMix cfg)) of
             (Some problem, s2) \<Rightarrow> (Some problem, s2)
           | (None, s2) \<Rightarrow>
               (case tryGenerateProblem rnd s2 currentValue Add (simpleConfig cfg) of
                  (Some addProblem, s3) \<Rightarrow> (Some addProblem, s3)
                | (None, s3) \<Rightarrow>
                    (case tryGenerateProblem rnd s3 currentValue Subtract (simpleConfig cfg) of
                       (Some subProblem, s4) \<Rightarrow> (Some subProblem, s4)
                     | (None, s4) \<Rightarrow> (None, s4)))))"


section \<open>Chain assembly\<close>

definition goodStarts :: "int list" where
  "goodStarts = [12, 18, 20, 24, 30, 36, 40, 48, 60, 72, 80, 90, 100]"

text \<open>
  The bounds \<open>(minStart, maxStart)\<close> of the starting number. \<^verbatim>\<open>n <= maxResult / 2\<close> is
  \<open>2 * n \<le> maxResult\<close> on integers. \<open>None\<close> is the index out of range, which no draw
  in \<open>[0, 1)\<close> reaches.
\<close>

definition startBounds :: "rng \<Rightarrow> nat \<Rightarrow> GameConfig \<Rightarrow> (int \<times> int) option \<times> nat" where
  "startBounds rnd s cfg =
     (let hasHighMultDiv =
            (mix_multiply (operationMix cfg) + mix_divide (operationMix cfg) \<ge> 50)
      in if hasHighMultDiv
         then (let filteredStarts = filter (\<lambda>n. 2 * n \<le> maxResult cfg) goodStarts
               in if length filteredStarts > 0
                  then (case randomInt rnd s 0 (int (length filteredStarts) - 1) of
                          (idx, s1) \<Rightarrow>
                            (case arrayAt filteredStarts idx of
                               None \<Rightarrow> (None, s1)
                             | Some start \<Rightarrow> (Some (start, start), s1)))
                  else (Some (10, min 50 (maxResult cfg div 3)), s))
         else (Some (max 5 (maxResult cfg div 10),
                     min (4 * maxResult cfg div 10) 100), s))"

text \<open>
  The growth loop: \<open>i\<close> counts the iterations, \<open>problems\<close> is the array built so far.
  \<open>None\<close> is the \<^verbatim>\<open>return null\<close> inside the loop.
\<close>

function chainLoop ::
  "rng \<Rightarrow> nat \<Rightarrow> GameConfig \<Rightarrow> int \<Rightarrow> int \<Rightarrow> Problem list \<Rightarrow> Problem list option \<times> nat" where
  "chainLoop rnd s cfg i currentValue probs =
     (if i < chainLength cfg
      then (case generateProblem rnd s currentValue cfg 20 of
              (None, s1) \<Rightarrow> if length probs \<ge> 3 then (Some probs, s1) else (None, s1)
            | (Some problem, s1) \<Rightarrow>
                chainLoop rnd s1 cfg (i + 1) (result problem) (probs @ [problem]))
      else (Some probs, s))"
  by pat_completeness auto
termination
  by (relation "measure (\<lambda>(rnd, s, cfg, i, currentValue, probs).
                   nat (chainLength cfg - i))") auto

declare chainLoop.simps [simp del]

definition generateChain :: "rng \<Rightarrow> nat \<Rightarrow> GameConfig \<Rightarrow> ProblemChain option \<times> nat" where
  "generateChain rnd s cfg =
     (case startBounds rnd s cfg of
        (None, s1) \<Rightarrow> (None, s1)
      | (Some (minStart, maxStart), s1) \<Rightarrow>
          (case randomInt rnd s1 minStart maxStart of
             (start, s2) \<Rightarrow>
               (case chainLoop rnd s2 cfg 0 start [] of
                  (None, s3) \<Rightarrow> (None, s3)
                | (Some probs, s3) \<Rightarrow>
                    if length probs = 0 then (None, s3)
                    else (case generateId rnd s3 of
                            (newId, s4) \<Rightarrow>
                              (Some \<lparr> chainId = newId, problems = probs,
                                      startingNumber = start \<rparr>, s4)))))"


section \<open>Worksheet assembly\<close>

text \<open>The retry loop; it returns the chains, the attempts made and the draws made.\<close>

function worksheetLoop ::
  "rng \<Rightarrow> nat \<Rightarrow> GameConfig \<Rightarrow> ProblemChain list \<Rightarrow> int \<Rightarrow> ProblemChain list \<times> int \<times> nat" where
  "worksheetLoop rnd s cfg chns attempts =
     (if int (length chns) < chainCount cfg \<and> attempts < chainCount cfg * 3
      then (case generateChain rnd s cfg of
              (Some chain, s1) \<Rightarrow>
                worksheetLoop rnd s1 cfg
                  (if length (problems chain) \<ge> 3 then chns @ [chain] else chns)
                  (attempts + 1)
            | (None, s1) \<Rightarrow> worksheetLoop rnd s1 cfg chns (attempts + 1))
      else (chns, attempts, s))"
  by pat_completeness auto
termination
  by (relation "measure (\<lambda>(rnd, s, cfg, chns, attempts).
                   nat (chainCount cfg * 3 - attempts))") auto

declare worksheetLoop.simps [simp del]

definition generateWorksheet :: "rng \<Rightarrow> nat \<Rightarrow> GameConfig \<Rightarrow> Worksheet \<times> nat" where
  "generateWorksheet rnd s cfg =
     (case worksheetLoop rnd s cfg [] 0 of
        (chns, attempts, s1) \<Rightarrow>
          (case generateId rnd s1 of
             (newId, s2) \<Rightarrow>
               (\<lparr> worksheetId = newId, chains = chns, config = cfg \<rparr>, s2)))"


section \<open>Definitions used by the statements\<close>

text \<open>
  The selection policy in the words of the specification: walk the four operations in the
  fixed order, accumulate their percentages, return the first operation whose cumulative
  threshold exceeds the draw, and \<open>Divide\<close> when none does.
\<close>

definition fixedOrder :: "Operation list" where
  "fixedOrder = [Add, Subtract, Multiply, Divide]"

definition cumulativeThreshold :: "OperationMix \<Rightarrow> Operation \<Rightarrow> real" where
  "cumulativeThreshold mix op =
     sum_list (map (operationMixAt mix) (takeWhile (\<lambda>x. x \<noteq> op) fixedOrder @ [op]))"

definition cumulativeWalk :: "OperationMix \<Rightarrow> real \<Rightarrow> Operation" where
  "cumulativeWalk mix draw =
     (case find (\<lambda>op. draw < cumulativeThreshold mix op) fixedOrder of
        Some op \<Rightarrow> op
      | None \<Rightarrow> Divide)"

text \<open>The operand range \<open>[minV, min(maxV, R - currentValue)]\<close> of an addition.\<close>

definition addRange :: "GameConfig \<Rightarrow> int \<Rightarrow> int \<times> int" where
  "addRange cfg currentValue =
     (minValue (ops_add (operations cfg)),
      min (maxValue (ops_add (operations cfg))) (maxResult cfg - currentValue))"

text \<open>
  A valid divisor in the words of the specification: \<open>d\<close> in
  \<open>[minV, min(maxV, currentValue)]\<close> with \<open>currentValue mod d = 0\<close> and the quotient in
  \<open>[1, R]\<close>.
\<close>

definition isValidDivisor :: "GameConfig \<Rightarrow> int \<Rightarrow> int \<Rightarrow> bool" where
  "isValidDivisor cfg currentValue d =
     (minValue (ops_divide (operations cfg)) \<le> d \<and>
      d \<le> min (maxValue (ops_divide (operations cfg))) currentValue \<and>
      currentValue mod d = 0 \<and>
      1 \<le> currentValue div d \<and> currentValue div d \<le> maxResult cfg)"



text \<open>
  A problem that some call of \<open>tryGenerateProblem\<close> at \<open>currentValue\<close> returned, under the
  configuration or under its last-resort simplification.
\<close>

definition producedFrom :: "rng \<Rightarrow> GameConfig \<Rightarrow> int \<Rightarrow> Problem \<Rightarrow> bool" where
  "producedFrom rnd cfg currentValue p =
     (\<exists>c s0 op s1. (c = cfg \<or> c = simpleConfig cfg) \<and>
        tryGenerateProblem rnd s0 currentValue op c = (Some p, s1))"

text \<open>
  No generation step of the growth loop fails: every call of \<open>generateProblem\<close> that the
  loop makes from iteration \<open>i\<close> on returns a problem.
\<close>

function noStepFails :: "rng \<Rightarrow> nat \<Rightarrow> GameConfig \<Rightarrow> int \<Rightarrow> int \<Rightarrow> bool" where
  "noStepFails rnd s cfg i currentValue =
     (if i < chainLength cfg
      then (case generateProblem rnd s currentValue cfg 20 of
              (None, s1) \<Rightarrow> False
            | (Some problem, s1) \<Rightarrow> noStepFails rnd s1 cfg (i + 1) (result problem))
      else True)"
  by pat_completeness auto
termination
  by (relation "measure (\<lambda>(rnd, s, cfg, i, currentValue). nat (chainLength cfg - i))") auto

declare noStepFails.simps [simp del]

definition chainNoStepFails :: "rng \<Rightarrow> nat \<Rightarrow> GameConfig \<Rightarrow> bool" where
  "chainNoStepFails rnd s cfg =
     (case startBounds rnd s cfg of
        (None, s1) \<Rightarrow> False
      | (Some (minStart, maxStart), s1) \<Rightarrow>
          (case randomInt rnd s1 minStart maxStart of
             (start, s2) \<Rightarrow> noStepFails rnd s2 cfg 0 start))"

text \<open>
  The bounds of the results of a list of problems: at most \<open>maxResult\<close>; at least \<open>1\<close>
  when negative results are not allowed; at least \<open>- maxResult\<close> when they are, provided
  \<open>maxResult\<close> and the least operands of addition and multiplication are not negative.
\<close>

definition boundsHold :: "GameConfig \<Rightarrow> Problem list \<Rightarrow> bool" where
  "boundsHold cfg ps =
     (list_all (\<lambda>p. result p \<le> maxResult cfg) ps \<and>
      (\<not> allowNegativeResults cfg \<longrightarrow> list_all (\<lambda>p. 1 \<le> result p) ps) \<and>
      (allowNegativeResults cfg \<and> 0 \<le> maxResult cfg \<and>
       0 \<le> minValue (ops_add (operations cfg)) \<and>
       0 \<le> minValue (ops_multiply (operations cfg)) \<longrightarrow>
         list_all (\<lambda>p. - maxResult cfg \<le> result p) ps))"

text \<open>
  The number of problems that the growth loop accumulates from iteration \<open>i\<close> on: the
  calls of \<open>generateProblem\<close> that succeed before the first one that fails, or before
  the loop ends. \<open>chainSteps\<close> is that number for a whole call of \<open>generateChain\<close>.
\<close>

function stepsBeforeFailure :: "rng \<Rightarrow> nat \<Rightarrow> GameConfig \<Rightarrow> int \<Rightarrow> int \<Rightarrow> nat" where
  "stepsBeforeFailure rnd s cfg i currentValue =
     (if i < chainLength cfg
      then (case generateProblem rnd s currentValue cfg 20 of
              (None, s1) \<Rightarrow> 0
            | (Some problem, s1) \<Rightarrow>
                Suc (stepsBeforeFailure rnd s1 cfg (i + 1) (result problem)))
      else 0)"
  by pat_completeness auto
termination
  by (relation "measure (\<lambda>(rnd, s, cfg, i, currentValue). nat (chainLength cfg - i))") auto

declare stepsBeforeFailure.simps [simp del]

definition chainSteps :: "rng \<Rightarrow> nat \<Rightarrow> GameConfig \<Rightarrow> nat" where
  "chainSteps rnd s cfg =
     (case startBounds rnd s cfg of
        (None, s1) \<Rightarrow> 0
      | (Some (minStart, maxStart), s1) \<Rightarrow>
          (case randomInt rnd s1 minStart maxStart of
             (start, s2) \<Rightarrow> stepsBeforeFailure rnd s2 cfg 0 start))"

text \<open>
  The chains that \<open>k\<close> successive chain-generation attempts from the state \<open>s\<close> yield
  and the worksheet accepts (those of at least three problems), whatever the loop guard
  says.
\<close>

fun acceptedAfter :: "rng \<Rightarrow> nat \<Rightarrow> GameConfig \<Rightarrow> nat \<Rightarrow> ProblemChain list" where
  "acceptedAfter rnd s cfg 0 = []"
| "acceptedAfter rnd s cfg (Suc k) =
     (case generateChain rnd s cfg of
        (None, s1) \<Rightarrow> acceptedAfter rnd s1 cfg k
      | (Some chain, s1) \<Rightarrow>
          (if length (problems chain) \<ge> 3 then [chain] else []) @ acceptedAfter rnd s1 cfg k)"


section \<open>Concrete inputs\<close>

text \<open>The random source whose every draw is \<open>0.5\<close>.\<close>

definition halfDraws :: rng where
  "halfDraws = (\<lambda>k. 1 / 2)"

text \<open>Configurations, each \<open>DEFAULT_CONFIG\<close> with a few fields changed.\<close>

definition shortChainConfig :: GameConfig where
  "shortChainConfig = DEFAULT_CONFIG \<lparr> chainLength := 2 \<rparr>"

definition invertedAddConfig :: GameConfig where
  "invertedAddConfig =
     DEFAULT_CONFIG \<lparr> operations := (operations DEFAULT_CONFIG)
       \<lparr> ops_add := \<lparr> enabled = True, frequency = Normal, minValue = 10, maxValue = 5 \<rparr> \<rparr> \<rparr>"

text \<open>
  The chains that the generator returns when every draw is \<open>0.5\<close>; the lemmas of the
  subsection on evaluations prove that it does.
\<close>

definition defaultChain :: ProblemChain where
  "defaultChain =
     \<lparr> chainId = ''i'',
       problems =
         [\<lparr> problemId = ''i'', startValue = 25, operation = Subtract, operand = 11, result = 14 \<rparr>,
          \<lparr> problemId = ''i'', startValue = 14, operation = Subtract, operand = 7, result = 7 \<rparr>,
          \<lparr> problemId = ''i'', startValue = 7, operation = Subtract, operand = 4, result = 3 \<rparr>,
          \<lparr> problemId = ''i'', startValue = 3, operation = Subtract, operand = 2, result = 1 \<rparr>,
          \<lparr> problemId = ''i'', startValue = 1, operation = Add, operand = 11, result = 12 \<rparr>,
          \<lparr> problemId = ''i'', startValue = 12, operation = Subtract, operand = 6, result = 6 \<rparr>],
       startingNumber = 25 \<rparr>"

definition shortChain :: ProblemChain where
  "shortChain =
     \<lparr> chainId = ''i'',
       problems =
         [\<lparr> problemId = ''i'', startValue = 25, operation = Subtract, operand = 11, result = 14 \<rparr>,
          \<lparr> problemId = ''i'', startValue = 14, operation = Subtract, operand = 7, result = 7 \<rparr>],
       startingNumber = 25 \<rparr>"

definition divideConfig :: GameConfig where
  "divideConfig =
     DEFAULT_CONFIG \<lparr> chainLength := 3,
       operationMix := \<lparr> mix_add = 0, mix_subtract = 0, mix_multiply = 0, mix_divide = 100 \<rparr> \<rparr>"

definition divideChain :: ProblemChain where
  "divideChain =
     \<lparr> chainId = ''i'',
       problems =
         [\<lparr> problemId = ''i'', startValue = 30, operation = Divide, operand = 5, result = 6 \<rparr>,
          \<lparr> problemId = ''i'', startValue = 6, operation = Divide, operand = 3, result = 2 \<rparr>,
          \<lparr> problemId = ''i'', startValue = 2, operation = Divide, operand = 2, result = 1 \<rparr>],
       startingNumber = 30 \<rparr>"

definition negativeConfig :: GameConfig where
  "negativeConfig = DEFAULT_CONFIG \<lparr> allowNegativeResults := True \<rparr>"

definition negativeChain :: ProblemChain where
  "negativeChain =
     \<lparr> chainId = ''i'',
       problems =
         [\<lparr> problemId = ''i'', startValue = 25, operation = Subtract, operand = 11, result = 14 \<rparr>,
          \<lparr> problemId = ''i'', startValue = 14, operation = Subtract, operand = 11, result = 3 \<rparr>,
          \<lparr> problemId = ''i'', startValue = 3, operation = Subtract, operand = 11, result = - 8 \<rparr>,
          \<lparr> problemId = ''i'', startValue = - 8, operation = Subtract, operand = 11, result = - 19 \<rparr>,
          \<lparr> problemId = ''i'', startValue = - 19, operation = Subtract, operand = 11, result = - 30 \<rparr>,
          \<lparr> problemId = ''i'', startValue = - 30, operation = Subtract, operand = 11, result = - 41 \<rparr>],
       startingNumber = 25 \<rparr>"

definition negativeAddConfig :: GameConfig where
  "negativeAddConfig =
     DEFAULT_CONFIG \<lparr> chainLength := 3,
       operations := (operations DEFAULT_CONFIG)
         \<lparr> ops_add := \<lparr> enabled = True, frequency = Normal, minValue = - 500, maxValue = 20 \<rparr> \<rparr>,
       operationMix := \<lparr> mix_add = 100, mix_subtract = 0, mix_multiply = 0, mix_divide = 0 \<rparr>,
       allowNegativeResults := True \<rparr>"

definition negativeAddChain :: ProblemChain where
  "negativeAddChain =
     \<lparr> chainId = ''i'',
       problems =
         [\<lparr> problemId = ''i'', startValue = 25, operation = Add, operand = - 240, result = - 215 \<rparr>,
          \<lparr> problemId = ''i'', startValue = - 215, operation = Add, operand = - 240, result = - 455 \<rparr>,
          \<lparr> problemId = ''i'', startValue = - 455, operation = Add, operand = - 240, result = - 695 \<rparr>],
       startingNumber = 25 \<rparr>"

definition smallWorksheetConfig :: GameConfig where
  "smallWorksheetConfig = DEFAULT_CONFIG \<lparr> chainLength := 3, chainCount := 2 \<rparr>"

definition smallChain :: ProblemChain where
  "smallChain =
     \<lparr> chainId = ''i'',
       problems =
         [\<lparr> problemId = ''i'', startValue = 25, operation = Subtract, operand = 11, result = 14 \<rparr>,
          \<lparr> problemId = ''i'', startValue = 14, operation = Subtract, operand = 7, result = 7 \<rparr>,
          \<lparr> problemId = ''i'', startValue = 7, operation = Subtract, operand = 4, result = 3 \<rparr>],
       startingNumber = 25 \<rparr>"

text \<open>
  A configuration under which the chain stops after one problem, and the same with one
  chain requested.
\<close>

definition stuckConfig :: GameConfig where
  "stuckConfig = DEFAULT_CONFIG \<lparr> maxResult := 1 \<rparr>"

definition stuckWorksheetConfig :: GameConfig where
  "stuckWorksheetConfig = DEFAULT_CONFIG \<lparr> maxResult := 1, chainCount := 1 \<rparr>"

definition noChainsConfig :: GameConfig where
  "noChainsConfig = DEFAULT_CONFIG \<lparr> chainCount := - 1 \<rparr>"


section \<open>Lemmas\<close>

subsection \<open>Random integers, indexing, divisors\<close>

lemma randomInt_value:
  "randomInt rnd s mn mx = (v, s1) \<Longrightarrow> v = \<lfloor>rnd s * of_int (mx - mn + 1)\<rfloor> + mn \<and> s1 = s + 1"
  by (auto simp: randomInt_def Math_random_def)

lemma randomInt_lower:
  assumes "unitDraws rnd" "randomInt rnd s mn mx = (v, s1)"
  shows "min mn (mx + 1) \<le> v"
proof -
  define k where "k = mx - mn + 1"
  define f where "f = \<lfloor>rnd s * of_int k\<rfloor>"
  have r: "0 \<le> rnd s" "rnd s < 1" using assms(1) by (simp_all add: unitDraws_def)
  have v: "v = f + mn"
    using randomInt_value [OF assms(2)] by (simp add: f_def k_def)
  have "min 0 k \<le> f"
  proof (cases "0 \<le> k")
    case True
    then have "0 \<le> rnd s * of_int k" using r by simp
    then have "0 \<le> f" unfolding f_def by simp
    then show ?thesis using True by simp
  next
    case False
    then have k: "(of_int k :: real) \<le> 0" by simp
    have "1 * of_int k \<le> rnd s * (of_int k :: real)"
      using r k by (intro mult_right_mono_neg) simp_all
    then have "of_int k \<le> rnd s * (of_int k :: real)" by simp
    then have "k \<le> f" unfolding f_def by (simp only: le_floor_iff)
    then show ?thesis using False by simp
  qed
  then show ?thesis using v unfolding k_def by linarith
qed

lemma randomInt_bounds:
  assumes "unitDraws rnd" "mn \<le> mx" "randomInt rnd s mn mx = (v, s1)"
  shows "mn \<le> v \<and> v \<le> mx"
proof -
  define k where "k = mx - mn + 1"
  define f where "f = \<lfloor>rnd s * of_int k\<rfloor>"
  have r: "0 \<le> rnd s" "rnd s < 1" using assms(1) by (simp_all add: unitDraws_def)
  have v: "v = f + mn"
    using randomInt_value [OF assms(3)] by (simp add: f_def k_def)
  have k: "(0::real) < of_int k" using assms(2) unfolding k_def by simp
  have "0 \<le> rnd s * of_int k" using r k by simp
  then have lo: "0 \<le> f" unfolding f_def by simp
  have "rnd s * of_int k < 1 * of_int k"
    using r k by (intro mult_strict_right_mono) simp_all
  then have "rnd s * of_int k < of_int k" by simp
  then have hi: "f < k" unfolding f_def by (simp only: floor_less_iff)
  show ?thesis using v lo hi unfolding k_def by linarith
qed

lemma randomInt_index:
  assumes "unitDraws rnd" "xs \<noteq> []" "randomInt rnd s 0 (int (length xs) - 1) = (i, s1)"
  shows "arrayAt xs i = Some (xs ! nat i) \<and> nat i < length xs"
proof -
  have "0 \<le> int (length xs) - 1" using assms(2) by (cases xs) simp_all
  from randomInt_bounds [OF assms(1) this assms(3)]
  have "0 \<le> i" "i < int (length xs)" by simp_all
  then show ?thesis by (simp add: arrayAt_def nat_less_iff)
qed

lemma arrayAt_Some: "arrayAt xs i = Some x \<Longrightarrow> x \<in> set xs"
  by (auto simp: arrayAt_def split: if_splits)

lemma jsRem_zero: 
  assumes "0 < a" shows "(jsRem a d = Some 0) = (a mod d = 0)"
proof (cases "d = 0")
  case True
  then show ?thesis using assms by (simp add: jsRem_def)
next
  case False
  have "(jsRem a d = Some 0) = (\<bar>a\<bar> mod \<bar>d\<bar> = 0)"
    using False assms by (simp add: jsRem_def)
  also have "\<dots> = (\<bar>d\<bar> dvd \<bar>a\<bar>)" by (simp only: dvd_eq_mod_eq_0)
  also have "\<dots> = (d dvd a)" by simp
  also have "\<dots> = (a mod d = 0)" by (simp only: dvd_eq_mod_eq_0)
  finally show ?thesis .
qed

lemma validDivisors_iff:
  "0 < currentValue \<Longrightarrow>
   (d \<in> set (validDivisors mn mx currentValue maxRes)) =
   (mn \<le> d \<and> d \<le> min mx currentValue \<and> currentValue mod d = 0 \<and>
    1 \<le> currentValue div d \<and> currentValue div d \<le> maxRes)"
  by (auto simp: validDivisors_def jsRem_zero Let_def)

subsection \<open>Operand search\<close>

lemma generateOperand_Add:
  assumes "unitDraws rnd" "generateOperand rnd s Add currentValue c = (Some d, s1)"
  shows "minValue (ops_add (operations c)) \<le> d \<and> d \<le> maxValue (ops_add (operations c)) \<and>
         d \<le> maxResult c - currentValue"
proof -
  let ?mn = "minValue (ops_add (operations c))"
  let ?mx = "min (maxValue (ops_add (operations c))) (maxResult c - currentValue)"
  have ok: "?mn \<le> ?mx" and r: "randomInt rnd s ?mn ?mx = (d, s1)"
    using assms(2)
    by (auto simp: generateOperand_def operationsAt_def Let_def split: if_splits prod.splits)
  from randomInt_bounds [OF assms(1) ok r] show ?thesis by simp
qed

lemma generateOperand_Subtract:
  assumes "unitDraws rnd" "generateOperand rnd s Subtract currentValue c = (Some d, s1)"
  shows "minValue (ops_subtract (operations c)) \<le> d \<and>
         d \<le> maxValue (ops_subtract (operations c)) \<and>
         d \<le> currentValue - (if allowNegativeResults c then - maxResult c else 1)"
proof -
  let ?mn = "minValue (ops_subtract (operations c))"
  let ?mx = "min (maxValue (ops_subtract (operations c)))
                 (currentValue - (if allowNegativeResults c then - maxResult c else 1))"
  have ok: "?mn \<le> ?mx" and r: "randomInt rnd s ?mn ?mx = (d, s1)"
    using assms(2)
    by (auto simp: generateOperand_def operationsAt_def Let_def split: if_splits prod.splits)
  from randomInt_bounds [OF assms(1) ok r] show ?thesis by simp
qed

lemma generateOperand_Multiply:
  assumes "unitDraws rnd" "generateOperand rnd s Multiply currentValue c = (Some d, s1)"
    "currentValue \<noteq> 0"
  shows "minValue (ops_multiply (operations c)) \<le> d \<and>
         d \<le> maxValue (ops_multiply (operations c)) \<and>
         d \<le> maxResult c div currentValue"
proof -
  let ?mn = "minValue (ops_multiply (operations c))"
  let ?mx = "min (maxValue (ops_multiply (operations c))) (maxResult c div currentValue)"
  have ok: "?mn \<le> ?mx" and r: "randomInt rnd s ?mn ?mx = (d, s1)"
    using assms(2,3)
    by (auto simp: generateOperand_def operationsAt_def Let_def split: if_splits prod.splits)
  from randomInt_bounds [OF assms(1) ok r] show ?thesis by simp
qed

lemma generateOperand_Divide:
  assumes "generateOperand rnd s Divide currentValue c = (Some d, s1)"
  shows "0 < currentValue \<and>
         d \<in> set (validDivisors (minValue (ops_divide (operations c)))
                     (maxValue (ops_divide (operations c))) currentValue (maxResult c))"
  using assms
  by (auto simp: generateOperand_def operationsAt_def Let_def
           split: if_splits prod.splits dest: arrayAt_Some)

lemma generateOperand_Divide_valid:
  assumes "generateOperand rnd s Divide currentValue c = (Some d, s1)"
  shows "0 < currentValue \<and> minValue (ops_divide (operations c)) \<le> d \<and>
         d \<le> maxValue (ops_divide (operations c)) \<and> d \<le> currentValue \<and>
         currentValue mod d = 0 \<and> 1 \<le> currentValue div d \<and>
         currentValue div d \<le> maxResult c"
proof -
  from generateOperand_Divide [OF assms]
  have pos: "0 < currentValue"
    and mem: "d \<in> set (validDivisors (minValue (ops_divide (operations c)))
                     (maxValue (ops_divide (operations c))) currentValue (maxResult c))"
    by simp_all
  from mem show ?thesis unfolding validDivisors_iff [OF pos] using pos by simp
qed

subsection \<open>Problem construction\<close>

lemma tryGenerateProblem_Some:
  assumes "tryGenerateProblem rnd s currentValue op c = (Some p, s')"
  shows "\<exists>s1. generateOperand rnd s op currentValue c = (Some (operand p), s1) \<and>
              startValue p = currentValue \<and> operation p = op \<and>
              calculateResult currentValue op (operand p) = Some (result p) \<and>
              (allowNegativeResults c \<or> 1 \<le> result p) \<and> result p \<le> maxResult c"
  using assms
  by (auto simp: tryGenerateProblem_def split: prod.splits option.splits if_splits)

subsection \<open>Single-problem generation\<close>

lemma randomAttempts_Some:
  "randomAttempts rnd s currentValue cfg maxAttempts attempt = (Some p, s') \<Longrightarrow>
   \<exists>s0 op s1. tryGenerateProblem rnd s0 currentValue op cfg = (Some p, s1)"
proof (induction rnd s currentValue cfg maxAttempts attempt rule: randomAttempts.induct)
  case (1 rnd s currentValue cfg maxAttempts attempt)
  show ?case
  proof (cases "attempt < maxAttempts")
    case False
    with "1.prems" show ?thesis by (simp add: randomAttempts.simps)
  next
    case True
    obtain op s1 where sel: "selectOperationByMix rnd s (operationMix cfg) = (op, s1)"
      by (cases "selectOperationByMix rnd s (operationMix cfg)")
    obtain r s2 where t: "tryGenerateProblem rnd s1 currentValue op cfg = (r, s2)"
      by (cases "tryGenerateProblem rnd s1 currentValue op cfg")
    show ?thesis
    proof (cases r)
      case None
      with True sel t "1.prems"
      have "randomAttempts rnd s2 currentValue cfg maxAttempts (attempt + 1) = (Some p, s')"
        by (simp add: randomAttempts.simps [of rnd s])
      from "1.IH" [OF True sel [symmetric] t [symmetric] None this] show ?thesis .
    next
      case (Some q)
      with True sel t "1.prems" have "q = p"
        by (simp add: randomAttempts.simps [of rnd s])
      with Some t show ?thesis by blast
    qed
  qed
qed

lemma tryOperations_Some:
  "tryOperations rnd s currentValue cfg ops = (Some p, s') \<Longrightarrow>
   \<exists>s0 op s1. tryGenerateProblem rnd s0 currentValue op cfg = (Some p, s1)"
proof (induction ops arbitrary: s)
  case Nil
  then show ?case by simp
next
  case (Cons op ops)
  obtain r s1 where t: "tryGenerateProblem rnd s currentValue op cfg = (r, s1)"
    by (cases "tryGenerateProblem rnd s currentValue op cfg")
  show ?case
  proof (cases r)
    case None
    with t Cons.prems have "tryOperations rnd s1 currentValue cfg ops = (Some p, s')" by simp
    from Cons.IH [OF this] show ?thesis .
  next
    case (Some q)
    with t Cons.prems have "q = p" by simp
    with Some t show ?thesis by blast
  qed
qed

lemma producedFrom_cfg:
  "tryGenerateProblem rnd s0 currentValue op cfg = (Some p, s1) \<Longrightarrow>
   producedFrom rnd cfg currentValue p"
  unfolding producedFrom_def by (intro exI [of _ cfg] exI [of _ s0] exI [of _ op] exI [of _ s1]) simp

lemma producedFrom_simple:
  "tryGenerateProblem rnd s0 currentValue op (simpleConfig cfg) = (Some p, s1) \<Longrightarrow>
   producedFrom rnd cfg currentValue p"
  unfolding producedFrom_def
  by (intro exI [of _ "simpleConfig cfg"] exI [of _ s0] exI [of _ op] exI [of _ s1]) simp

lemma generateProblem_Some:
  assumes "generateProblem rnd s currentValue cfg maxAttempts = (Some p, s')"
  shows "producedFrom rnd cfg currentValue p"
proof -
  obtain r1 s1 where a: "randomAttempts rnd s currentValue cfg maxAttempts 0 = (r1, s1)"
    by (cases "randomAttempts rnd s currentValue cfg maxAttempts 0")
  show ?thesis
  proof (cases r1)
    case (Some q)
    with a assms have "q = p" by (simp add: generateProblem_def)
    with Some a have "randomAttempts rnd s currentValue cfg maxAttempts 0 = (Some p, s1)"
      by simp
    from randomAttempts_Some [OF this] show ?thesis by (auto intro: producedFrom_cfg)
  next
    case n1: None
    obtain r2 s2 where b:
      "tryOperations rnd s1 currentValue cfg (sortedOps (operationMix cfg)) = (r2, s2)"
      by (cases "tryOperations rnd s1 currentValue cfg (sortedOps (operationMix cfg))")
    show ?thesis
    proof (cases r2)
      case (Some q)
      with a n1 b assms have "q = p" by (simp add: generateProblem_def)
      with Some b
      have "tryOperations rnd s1 currentValue cfg (sortedOps (operationMix cfg)) = (Some p, s2)"
        by simp
      from tryOperations_Some [OF this] show ?thesis by (auto intro: producedFrom_cfg)
    next
      case n2: None
      obtain r3 s3 where c:
        "tryGenerateProblem rnd s2 currentValue Add (simpleConfig cfg) = (r3, s3)"
        by (cases "tryGenerateProblem rnd s2 currentValue Add (simpleConfig cfg)")
      show ?thesis
      proof (cases r3)
        case (Some q)
        with a n1 b n2 c assms have "q = p" by (simp add: generateProblem_def)
        with Some c show ?thesis by (auto intro: producedFrom_simple)
      next
        case n3: None
        obtain r4 s4 where d:
          "tryGenerateProblem rnd s3 currentValue Subtract (simpleConfig cfg) = (r4, s4)"
          by (cases "tryGenerateProblem rnd s3 currentValue Subtract (simpleConfig cfg)")
        from a n1 b n2 c n3 d assms have "r4 = Some p"
          by (cases r4) (simp_all add: generateProblem_def)
        with d show ?thesis by (auto intro: producedFrom_simple)
      qed
    qed
  qed
qed


subsection \<open>Chain assembly\<close>

lemma chainLoop_invariant:
  assumes "chainLoop rnd s cfg i currentValue probs = (Some ps, s')"
    and "I currentValue" and "list_all Q probs"
    and "\<And>s v p s'. I v \<Longrightarrow> generateProblem rnd s v cfg 20 = (Some p, s') \<Longrightarrow>
           Q p \<and> I (result p)"
  shows "list_all Q ps"
  using assms
proof (induction rnd s cfg i currentValue probs rule: chainLoop.induct)
  case (1 rnd s cfg i currentValue probs)
  show ?case
  proof (cases "i < chainLength cfg")
    case False
    with "1.prems"(1,3) show ?thesis by (simp add: chainLoop.simps)
  next
    case True
    obtain r s1 where g: "generateProblem rnd s currentValue cfg 20 = (r, s1)"
      by (cases "generateProblem rnd s currentValue cfg 20")
    show ?thesis
    proof (cases r)
      case None
      with True g "1.prems"(1,3) show ?thesis
        by (simp add: chainLoop.simps [of rnd s] split: if_splits)
    next
      case (Some p)
      with True g "1.prems"(1)
      have l: "chainLoop rnd s1 cfg (i + 1) (result p) (probs @ [p]) = (Some ps, s')"
        by (simp add: chainLoop.simps [of rnd s])
      from g Some have "generateProblem rnd s currentValue cfg 20 = (Some p, s1)" by simp
      from "1.prems"(4) [OF "1.prems"(2) this] have qp: "Q p" and ir: "I (result p)"
        by simp_all
      from qp "1.prems"(3) have "list_all Q (probs @ [p])" by simp
      from "1.IH" [OF True g [symmetric] Some l ir this "1.prems"(4)] show ?thesis .
    qed
  qed
qed






lemma generateChain_Some:
  assumes "generateChain rnd s cfg = (Some chain, s')"
  shows "\<exists>mn mx s1 s2 s3.
           startBounds rnd s cfg = (Some (mn, mx), s1) \<and>
           randomInt rnd s1 mn mx = (startingNumber chain, s2) \<and>
           chainLoop rnd s2 cfg 0 (startingNumber chain) [] = (Some (problems chain), s3) \<and>
           problems chain \<noteq> []"
  using assms
  by (auto simp: generateChain_def split: prod.splits option.splits if_splits)

subsection \<open>Evaluations and chain lengths\<close>

lemma unitDraws_halfDraws: "unitDraws halfDraws"
  by (simp add: unitDraws_def halfDraws_def)

lemma generateChain_default: "generateChain halfDraws 0 DEFAULT_CONFIG = (Some defaultChain, 39)"
  by code_simp

lemma generateChain_short: "generateChain halfDraws 0 shortChainConfig = (Some shortChain, 8)"
  by code_simp

lemma chainLoop_length:
  assumes "chainLoop rnd s cfg i currentValue probs = (Some ps, s')" "i \<le> chainLength cfg"
  shows "int (length ps) - int (length probs) \<le> chainLength cfg - i \<and>
         (3 \<le> length ps \<or> int (length ps) - int (length probs) = chainLength cfg - i) \<and>
         (noStepFails rnd s cfg i currentValue \<longrightarrow>
            int (length ps) - int (length probs) = chainLength cfg - i)"
  using assms
proof (induction rnd s cfg i currentValue probs rule: chainLoop.induct)
  case (1 rnd s cfg i currentValue probs)
  show ?case
  proof (cases "i < chainLength cfg")
    case False
    with "1.prems" have "ps = probs" "i = chainLength cfg" by (simp_all add: chainLoop.simps)
    then show ?thesis by simp
  next
    case True
    obtain r s1 where g: "generateProblem rnd s currentValue cfg 20 = (r, s1)"
      by (cases "generateProblem rnd s currentValue cfg 20")
    show ?thesis
    proof (cases r)
      case None
      with True g "1.prems"(1) have "ps = probs" "3 \<le> length probs"
        by (simp_all add: chainLoop.simps [of rnd s] split: if_splits)
      moreover from True g None have "\<not> noStepFails rnd s cfg i currentValue"
        by (simp add: noStepFails.simps [of rnd s])
      ultimately show ?thesis using True by simp
    next
      case (Some p)
      with True g "1.prems"(1)
      have l: "chainLoop rnd s1 cfg (i + 1) (result p) (probs @ [p]) = (Some ps, s')"
        by (simp add: chainLoop.simps [of rnd s])
      from True have le: "i + 1 \<le> chainLength cfg" by simp
      from True g Some
      have n: "noStepFails rnd s cfg i currentValue = noStepFails rnd s1 cfg (i + 1) (result p)"
        by (simp add: noStepFails.simps [of rnd s])
      from "1.IH" [OF True g [symmetric] Some l le] n show ?thesis by auto
    qed
  qed
qed


subsection \<open>Division, bounds and the starting number\<close>

lemma generateChain_divide: "generateChain halfDraws 0 divideConfig = (Some divideChain, 12)"
  by code_simp

lemma simpleConfig_fields:
  "maxResult (simpleConfig cfg) = maxResult cfg"
  "allowNegativeResults (simpleConfig cfg) = allowNegativeResults cfg"
  "ops_multiply (operations (simpleConfig cfg)) = ops_multiply (operations cfg)"
  "ops_divide (operations (simpleConfig cfg)) = ops_divide (operations cfg)"
  "minValue (ops_add (operations (simpleConfig cfg))) = 1"
  by (simp_all add: simpleConfig_def)

lemma isValidDivisor_iff:
  "0 < currentValue \<Longrightarrow>
   isValidDivisor cfg currentValue d =
   (d \<in> set (validDivisors (minValue (ops_divide (operations cfg)))
                 (maxValue (ops_divide (operations cfg))) currentValue (maxResult cfg)))"
  by (simp only: validDivisors_iff isValidDivisor_def)

lemma generateOperand_Divide_nonpositive:
  "currentValue \<le> 0 \<Longrightarrow> generateOperand rnd s Divide currentValue cfg = (None, s)"
  by (simp add: generateOperand_def)

lemma generateOperand_Divide_contract:
  assumes "unitDraws rnd" "0 < currentValue"
  shows "case fst (generateOperand rnd s Divide currentValue cfg) of
           None \<Rightarrow> \<not> (\<exists>d. isValidDivisor cfg currentValue d)
         | Some d \<Rightarrow> isValidDivisor cfg currentValue d"
proof -
  define divisors where
    "divisors = validDivisors (minValue (ops_divide (operations cfg)))
                  (maxValue (ops_divide (operations cfg))) currentValue (maxResult cfg)"
  have v: "\<And>d. isValidDivisor cfg currentValue d = (d \<in> set divisors)"
    unfolding divisors_def by (rule isValidDivisor_iff [OF assms(2)])
  show ?thesis
  proof (cases "divisors = []")
    case True
    then have "generateOperand rnd s Divide currentValue cfg = (None, s)"
      using assms(2) by (simp add: generateOperand_def operationsAt_def divisors_def)
    with True v show ?thesis by simp
  next
    case False
    obtain i s1 where r: "randomInt rnd s 0 (int (length divisors) - 1) = (i, s1)"
      by (cases "randomInt rnd s 0 (int (length divisors) - 1)")
    from randomInt_index [OF assms(1) False r]
    have a: "arrayAt divisors i = Some (divisors ! nat i)" and n: "nat i < length divisors"
      by simp_all
    have "generateOperand rnd s Divide currentValue cfg = (Some (divisors ! nat i), s1)"
      using assms(2) False r a
      by (simp add: generateOperand_def operationsAt_def divisors_def [symmetric])
    moreover from n have "divisors ! nat i \<in> set divisors" by simp
    ultimately show ?thesis using v by simp
  qed
qed

lemma producedFrom_Divide:
  assumes "producedFrom rnd cfg currentValue p" "operation p = Divide"
  shows "0 < startValue p \<and> operand p \<le> startValue p \<and> startValue p mod operand p = 0 \<and>
         result p * operand p = startValue p \<and> 1 \<le> result p \<and> result p \<le> maxResult cfg"
proof -
  from assms(1) obtain c s0 op s1 where c: "c = cfg \<or> c = simpleConfig cfg"
    and t: "tryGenerateProblem rnd s0 currentValue op c = (Some p, s1)"
    unfolding producedFrom_def by auto
  from tryGenerateProblem_Some [OF t] assms(2) obtain s2 where
    g: "generateOperand rnd s0 Divide currentValue c = (Some (operand p), s2)" and
    sv: "startValue p = currentValue" and
    cr: "calculateResult currentValue Divide (operand p) = Some (result p)"
    by auto
  from c have m: "maxResult c = maxResult cfg" by (auto simp: simpleConfig_fields)
  from generateOperand_Divide_valid [OF g]
  have pos: "0 < currentValue" and le: "operand p \<le> currentValue"
    and md: "currentValue mod operand p = 0"
    and q: "1 \<le> currentValue div operand p" "currentValue div operand p \<le> maxResult c"
    by simp_all
  from cr have r: "result p = currentValue div operand p"
    by (simp add: calculateResult_def split: if_splits)
  from md have "currentValue div operand p * operand p = currentValue"
    by (simp add: dvd_eq_mod_eq_0 [symmetric])
  with r sv pos le md q m show ?thesis by simp
qed

lemma producedFrom_upper:
  assumes "producedFrom rnd cfg currentValue p"
  shows "result p \<le> maxResult cfg \<and> (allowNegativeResults cfg \<or> 1 \<le> result p)"
proof -
  from assms obtain c s0 op s1 where c: "c = cfg \<or> c = simpleConfig cfg"
    and t: "tryGenerateProblem rnd s0 currentValue op c = (Some p, s1)"
    unfolding producedFrom_def by auto
  from c have m: "maxResult c = maxResult cfg" "allowNegativeResults c = allowNegativeResults cfg"
    by (auto simp: simpleConfig_fields)
  from tryGenerateProblem_Some [OF t] m show ?thesis by auto
qed

lemma tryGenerateProblem_lower:
  assumes u: "unitDraws rnd"
    and t: "tryGenerateProblem rnd s currentValue op c = (Some p, s')"
    and neg: "allowNegativeResults c" and r0: "0 \<le> maxResult c"
    and a0: "0 \<le> minValue (ops_add (operations c))"
    and m0: "0 \<le> minValue (ops_multiply (operations c))"
    and cv: "- maxResult c \<le> currentValue"
  shows "- maxResult c \<le> result p"
proof -
  from tryGenerateProblem_Some [OF t] obtain s1 where
    g: "generateOperand rnd s op currentValue c = (Some (operand p), s1)" and
    cr: "calculateResult currentValue op (operand p) = Some (result p)"
    by auto
  show ?thesis
  proof (cases op)
    case Add
    from generateOperand_Add [OF u g [unfolded Add]] a0 have "0 \<le> operand p" by simp
    moreover from cr Add have "result p = currentValue + operand p"
      by (simp add: calculateResult_def)
    ultimately show ?thesis using cv by simp
  next
    case Subtract
    from generateOperand_Subtract [OF u g [unfolded Subtract]] neg
    have "operand p \<le> currentValue + maxResult c" by simp
    moreover from cr Subtract have "result p = currentValue - operand p"
      by (simp add: calculateResult_def)
    ultimately show ?thesis by simp
  next
    case Multiply
    from cr Multiply have r: "result p = currentValue * operand p"
      by (simp add: calculateResult_def)
    show ?thesis
    proof (cases "currentValue = 0")
      case True
      with r r0 show ?thesis by simp
    next
      case False
      from generateOperand_Multiply [OF u g [unfolded Multiply] False] m0
      have d0: "0 \<le> operand p" and d1: "operand p \<le> maxResult c div currentValue" by simp_all
      show ?thesis
      proof (cases "0 < currentValue")
        case True
        with d0 have "0 \<le> currentValue * operand p" by simp
        with r r0 show ?thesis by simp
      next
        case f: False
        with False have "currentValue < 0" by simp
        with r0 have "maxResult c div currentValue \<le> 0" by (rule div_nonneg_neg_le0)
        with d0 d1 have "operand p = 0" by simp
        with r r0 show ?thesis by simp
      qed
    qed
  next
    case Divide
    from generateOperand_Divide_valid [OF g [unfolded Divide]]
    have "1 \<le> currentValue div operand p" by simp
    moreover from cr Divide have "result p = currentValue div operand p"
      by (simp add: calculateResult_def split: if_splits)
    ultimately show ?thesis using r0 by simp
  qed
qed

lemma producedFrom_lower:
  assumes u: "unitDraws rnd" and pf: "producedFrom rnd cfg currentValue p"
    and neg: "allowNegativeResults cfg" and r0: "0 \<le> maxResult cfg"
    and a0: "0 \<le> minValue (ops_add (operations cfg))"
    and m0: "0 \<le> minValue (ops_multiply (operations cfg))"
    and cv: "- maxResult cfg \<le> currentValue"
  shows "- maxResult cfg \<le> result p"
proof -
  from pf obtain c s0 op s1 where c: "c = cfg \<or> c = simpleConfig cfg"
    and t: "tryGenerateProblem rnd s0 currentValue op c = (Some p, s1)"
    unfolding producedFrom_def by auto
  from c have m: "maxResult c = maxResult cfg" by (auto simp: simpleConfig_fields)
  have "- maxResult c \<le> result p"
  proof (rule tryGenerateProblem_lower [OF u t])
    show "allowNegativeResults c" using c neg by (auto simp: simpleConfig_fields)
    show "0 \<le> maxResult c" using m r0 by simp
    show "0 \<le> minValue (ops_add (operations c))" using c a0 by (auto simp: simpleConfig_fields)
    show "0 \<le> minValue (ops_multiply (operations c))"
      using c m0 by (auto simp: simpleConfig_fields)
    show "- maxResult c \<le> currentValue" using m cv by simp
  qed
  with m show ?thesis by simp
qed

lemma startBounds_lower:
  assumes "startBounds rnd s cfg = (Some (mn, mx), s1)" "0 \<le> maxResult cfg"
  shows "0 \<le> mn \<and> 0 \<le> mx"
proof -
  let ?filtered = "filter (\<lambda>n. 2 * n \<le> maxResult cfg) goodStarts"
  have good: "0 \<le> x" if "x \<in> set ?filtered" for x
  proof -
    from that have "x \<in> set goodStarts" by simp
    then show ?thesis by (auto simp: goodStarts_def)
  qed
  show ?thesis
  proof (cases "mix_multiply (operationMix cfg) + mix_divide (operationMix cfg) \<ge> 50")
    case False
    with assms show ?thesis by (auto simp: startBounds_def)
  next
    case high: True
    show ?thesis
    proof (cases "?filtered = []")
      case True
      with high assms show ?thesis by (auto simp: startBounds_def)
    next
      case False
      obtain idx s2 where r: "randomInt rnd s 0 (int (length ?filtered) - 1) = (idx, s2)"
        by (cases "randomInt rnd s 0 (int (length ?filtered) - 1)")
      from high False r assms(1) have "arrayAt ?filtered idx = Some mn" "mx = mn"
        by (auto simp: startBounds_def split: option.splits)
      with good [OF arrayAt_Some] show ?thesis by simp
    qed
  qed
qed

lemma startingNumber_lower:
  assumes "unitDraws rnd" "generateChain rnd s cfg = (Some chain, s')" "0 \<le> maxResult cfg"
  shows "0 \<le> startingNumber chain"
proof -
  from generateChain_Some [OF assms(2)] obtain mn mx s1 s2 where
    b: "startBounds rnd s cfg = (Some (mn, mx), s1)" and
    r: "randomInt rnd s1 mn mx = (startingNumber chain, s2)"
    by auto
  from startBounds_lower [OF b assms(3)] randomInt_lower [OF assms(1) r]
  show ?thesis by (simp add: min_def split: if_splits)
qed

lemma generateChain_all:
  assumes "generateChain rnd s cfg = (Some chain, s')"
    and "I (startingNumber chain)"
    and "\<And>v p. I v \<Longrightarrow> producedFrom rnd cfg v p \<Longrightarrow> Q p \<and> I (result p)"
  shows "list_all Q (problems chain)"
proof -
  from generateChain_Some [OF assms(1)] obtain s2 s3 where
    l: "chainLoop rnd s2 cfg 0 (startingNumber chain) [] = (Some (problems chain), s3)"
    by auto
  show ?thesis
  proof (rule chainLoop_invariant [where I = I and Q = Q, OF l assms(2)])
    fix s v p s'
    assume "I v" "generateProblem rnd s v cfg 20 = (Some p, s')"
    with assms(3) generateProblem_Some show "Q p \<and> I (result p)" by blast
  qed simp
qed

subsection \<open>Result bounds and the worksheet loop\<close>

lemma generateChain_negative: "generateChain halfDraws 0 negativeConfig = (Some negativeChain, 20)"
  by code_simp

lemma generateChain_negativeAdd:
  "generateChain halfDraws 0 negativeAddConfig = (Some negativeAddChain, 11)"
  by code_simp

lemma worksheetLoop_small:
  "worksheetLoop halfDraws 0 smallWorksheetConfig [] 0 = ([smallChain, smallChain], 2, 22)"
  by code_simp

lemma generateWorksheet_small:
  "generateWorksheet halfDraws 0 smallWorksheetConfig =
     (\<lparr> worksheetId = ''i'', chains = [smallChain, smallChain],
        config = smallWorksheetConfig \<rparr>, 23)"
  by code_simp

lemma generateChain_bounds:
  assumes u: "unitDraws rnd" and g: "generateChain rnd s cfg = (Some chain, s')"
  shows "boundsHold cfg (problems chain)"
proof -
  have upper: "list_all (\<lambda>p. result p \<le> maxResult cfg \<and> (allowNegativeResults cfg \<or> 1 \<le> result p))
                 (problems chain)"
  proof (rule generateChain_all [OF g, where I = "\<lambda>v. True"])
    fix v p
    assume "producedFrom rnd cfg v p"
    from producedFrom_upper [OF this]
    show "(result p \<le> maxResult cfg \<and> (allowNegativeResults cfg \<or> 1 \<le> result p)) \<and> True"
      by simp
  qed simp
  have lower: "list_all (\<lambda>p. - maxResult cfg \<le> result p) (problems chain)"
    if neg: "allowNegativeResults cfg" and r0: "0 \<le> maxResult cfg"
      and a0: "0 \<le> minValue (ops_add (operations cfg))"
      and m0: "0 \<le> minValue (ops_multiply (operations cfg))"
  proof (rule generateChain_all [OF g, where I = "\<lambda>v. - maxResult cfg \<le> v"])
    from startingNumber_lower [OF u g r0] r0
    show "- maxResult cfg \<le> startingNumber chain" by simp
  next
    fix v p
    assume "- maxResult cfg \<le> v" "producedFrom rnd cfg v p"
    from producedFrom_lower [OF u this(2) neg r0 a0 m0 this(1)]
    show "- maxResult cfg \<le> result p \<and> - maxResult cfg \<le> result p" by simp
  qed
  from upper lower show ?thesis
    unfolding boundsHold_def list_all_iff by blast
qed

lemma worksheetLoop_invariant:
  assumes "worksheetLoop rnd s cfg chns attempts = (out, a, s')"
    and "list_all P chns"
    and "\<And>s chain s'. generateChain rnd s cfg = (Some chain, s') \<Longrightarrow> P chain"
  shows "list_all P out"
  using assms
proof (induction rnd s cfg chns attempts rule: worksheetLoop.induct)
  case (1 rnd s cfg chns attempts)
  show ?case
  proof (cases "int (length chns) < chainCount cfg \<and> attempts < chainCount cfg * 3")
    case False
    with "1.prems"(1,2) show ?thesis by (simp add: worksheetLoop.simps)
  next
    case True
    obtain r s1 where g: "generateChain rnd s cfg = (r, s1)"
      by (cases "generateChain rnd s cfg")
    show ?thesis
    proof (cases r)
      case None
      with True g "1.prems"(1)
      have l: "worksheetLoop rnd s1 cfg chns (attempts + 1) = (out, a, s')"
        by (simp add: worksheetLoop.simps [of rnd s])
      from "1.IH"(1) [OF True g [symmetric] None l "1.prems"(2,3)] show ?thesis .
    next
      case (Some chain)
      let ?chns = "if length (problems chain) \<ge> 3 then chns @ [chain] else chns"
      from Some True g "1.prems"(1)
      have l: "worksheetLoop rnd s1 cfg ?chns (attempts + 1) = (out, a, s')"
        by (simp add: worksheetLoop.simps [of rnd s])
      from g Some have "generateChain rnd s cfg = (Some chain, s1)" by simp
      from "1.prems"(3) [OF this] "1.prems"(2) have "list_all P ?chns" by simp
      from "1.IH"(2) [OF True g [symmetric] Some l this "1.prems"(3)] show ?thesis .
    qed
  qed
qed

lemma worksheetLoop_facts:
  assumes "worksheetLoop rnd s cfg chns attempts = (out, a, s')"
    and "int (length chns) \<le> max 0 (chainCount cfg)"
    and "0 \<le> attempts" and "attempts \<le> max 0 (chainCount cfg * 3)"
    and "list_all (\<lambda>c. 3 \<le> length (problems c)) chns"
  shows "int (length out) \<le> max 0 (chainCount cfg) \<and> 0 \<le> a \<and>
         a \<le> max 0 (chainCount cfg * 3) \<and>
         list_all (\<lambda>c. 3 \<le> length (problems c)) out \<and>
         (chainCount cfg \<le> int (length out) \<or> chainCount cfg * 3 \<le> a)"
  using assms
proof (induction rnd s cfg chns attempts rule: worksheetLoop.induct)
  case (1 rnd s cfg chns attempts)
  show ?case
  proof (cases "int (length chns) < chainCount cfg \<and> attempts < chainCount cfg * 3")
    case False
    with "1.prems"(1) have "out = chns" "a = attempts" by (simp_all add: worksheetLoop.simps)
    with False "1.prems"(2-5) show ?thesis by auto
  next
    case True
    obtain r s1 where g: "generateChain rnd s cfg = (r, s1)"
      by (cases "generateChain rnd s cfg")
    from True "1.prems"(3) have att: "0 \<le> attempts + 1" "attempts + 1 \<le> max 0 (chainCount cfg * 3)"
      by simp_all
    show ?thesis
    proof (cases r)
      case None
      with True g "1.prems"(1)
      have l: "worksheetLoop rnd s1 cfg chns (attempts + 1) = (out, a, s')"
        by (simp add: worksheetLoop.simps [of rnd s])
      from "1.IH"(1) [OF True g [symmetric] None l "1.prems"(2) att "1.prems"(5)]
      show ?thesis .
    next
      case (Some chain)
      let ?chns = "if length (problems chain) \<ge> 3 then chns @ [chain] else chns"
      from Some True g "1.prems"(1)
      have l: "worksheetLoop rnd s1 cfg ?chns (attempts + 1) = (out, a, s')"
        by (simp add: worksheetLoop.simps [of rnd s])
      from True have len: "int (length ?chns) \<le> max 0 (chainCount cfg)" by simp
      from "1.prems"(5) have all: "list_all (\<lambda>c. 3 \<le> length (problems c)) ?chns" by simp
      from "1.IH"(2) [OF True g [symmetric] Some l len att all] show ?thesis .
    qed
  qed
qed

subsection \<open>What the loops return\<close>

lemma worksheetLoop_stuck:
  "worksheetLoop halfDraws 0 stuckWorksheetConfig [] 0 = ([], 3, 72)"
  by code_simp

lemma chainSteps_stuck: "chainSteps halfDraws 0 stuckConfig = 1"
  by code_simp

lemma chainNoStepFails_stuck: "\<not> chainNoStepFails halfDraws 0 stuckConfig"
  by code_simp

lemma chainNoStepFails_short: "chainNoStepFails halfDraws 0 shortChainConfig"
  by code_simp

lemma chainLoop_outcome:
  "chainLoop rnd s cfg i currentValue probs = (r, s') \<Longrightarrow>
   r = (if noStepFails rnd s cfg i currentValue \<or>
           3 \<le> length probs + stepsBeforeFailure rnd s cfg i currentValue
        then r else None) \<and>
   (noStepFails rnd s cfg i currentValue \<or>
      3 \<le> length probs + stepsBeforeFailure rnd s cfg i currentValue \<longrightarrow>
      (\<exists>ps. r = Some ps \<and>
            length ps = length probs + stepsBeforeFailure rnd s cfg i currentValue))"
proof (induction rnd s cfg i currentValue probs rule: chainLoop.induct)
  case (1 rnd s cfg i currentValue probs)
  show ?case
  proof (cases "i < chainLength cfg")
    case False
    with "1.prems" have "r = Some probs" by (simp add: chainLoop.simps)
    moreover from False have "stepsBeforeFailure rnd s cfg i currentValue = 0"
      "noStepFails rnd s cfg i currentValue"
      by (simp_all add: stepsBeforeFailure.simps noStepFails.simps)
    ultimately show ?thesis by simp
  next
    case True
    obtain g s1 where g: "generateProblem rnd s currentValue cfg 20 = (g, s1)"
      by (cases "generateProblem rnd s currentValue cfg 20")
    show ?thesis
    proof (cases g)
      case None
      with True g "1.prems" have "r = (if 3 \<le> length probs then Some probs else None)"
        by (auto simp add: chainLoop.simps [of rnd s] split: if_splits)
      moreover from True g None have "stepsBeforeFailure rnd s cfg i currentValue = 0"
        "\<not> noStepFails rnd s cfg i currentValue"
        by (simp_all add: stepsBeforeFailure.simps [of rnd s] noStepFails.simps [of rnd s])
      ultimately show ?thesis by simp
    next
      case (Some p)
      with True g "1.prems"
      have l: "chainLoop rnd s1 cfg (i + 1) (result p) (probs @ [p]) = (r, s')"
        by (simp add: chainLoop.simps [of rnd s])
      from True g Some
      have n: "stepsBeforeFailure rnd s cfg i currentValue =
                 Suc (stepsBeforeFailure rnd s1 cfg (i + 1) (result p))"
        and k: "noStepFails rnd s cfg i currentValue =
                  noStepFails rnd s1 cfg (i + 1) (result p)"
        by (simp_all add: stepsBeforeFailure.simps [of rnd s] noStepFails.simps [of rnd s])
      from "1.IH" [OF True g [symmetric] Some l] n k show ?thesis by simp
    qed
  qed
qed

lemma chainLoop_None_iff:
  assumes "chainLoop rnd s cfg i currentValue probs = (r, s')"
  shows "(r = None) = (\<not> noStepFails rnd s cfg i currentValue \<and>
                       length probs + stepsBeforeFailure rnd s cfg i currentValue < 3)"
  using chainLoop_outcome [OF assms] by (cases r) (auto split: if_splits)

lemma chainLoop_Some_length:
  assumes "chainLoop rnd s cfg i currentValue probs = (Some ps, s')"
  shows "length ps = length probs + stepsBeforeFailure rnd s cfg i currentValue"
  using chainLoop_outcome [OF assms] by (auto split: if_splits)

lemma noStepFails_steps:
  "noStepFails rnd s cfg i currentValue \<Longrightarrow>
   int (stepsBeforeFailure rnd s cfg i currentValue) = max 0 (chainLength cfg - i)"
proof (induction rnd s cfg i currentValue rule: noStepFails.induct)
  case (1 rnd s cfg i currentValue)
  show ?case
  proof (cases "i < chainLength cfg")
    case False
    then show ?thesis by (simp add: stepsBeforeFailure.simps)
  next
    case True
    obtain g s1 where g: "generateProblem rnd s currentValue cfg 20 = (g, s1)"
      by (cases "generateProblem rnd s currentValue cfg 20")
    show ?thesis
    proof (cases g)
      case None
      with True g "1.prems" show ?thesis by (simp add: noStepFails.simps [of rnd s])
    next
      case (Some p)
      with True g "1.prems" have "noStepFails rnd s1 cfg (i + 1) (result p)"
        by (simp add: noStepFails.simps [of rnd s])
      from "1.IH" [OF True g [symmetric] Some this] True g Some show ?thesis
        by (simp add: stepsBeforeFailure.simps [of rnd s])
    qed
  qed
qed

lemma generateChain_outcome:
  "(fst (generateChain rnd s cfg) = None) =
     (chainSteps rnd s cfg = 0 \<or> \<not> chainNoStepFails rnd s cfg \<and> chainSteps rnd s cfg < 3)"
  "generateChain rnd s cfg = (Some chain, s') \<Longrightarrow> length (problems chain) = chainSteps rnd s cfg"
proof -
  obtain b s1 where b: "startBounds rnd s cfg = (b, s1)" by (cases "startBounds rnd s cfg")
  show "(fst (generateChain rnd s cfg) = None) =
     (chainSteps rnd s cfg = 0 \<or> \<not> chainNoStepFails rnd s cfg \<and> chainSteps rnd s cfg < 3)"
  proof (cases b)
    case None
    with b show ?thesis by (simp add: generateChain_def chainSteps_def)
  next
    case (Some mm)
    obtain mn mx where mm: "mm = (mn, mx)" by (cases mm)
    obtain start s2 where r: "randomInt rnd s1 mn mx = (start, s2)"
      by (cases "randomInt rnd s1 mn mx")
    obtain l s3 where l: "chainLoop rnd s2 cfg 0 start [] = (l, s3)"
      by (cases "chainLoop rnd s2 cfg 0 start []")
    have cs: "chainSteps rnd s cfg = stepsBeforeFailure rnd s2 cfg 0 start"
      and cn: "chainNoStepFails rnd s cfg = noStepFails rnd s2 cfg 0 start"
      using b Some mm r by (simp_all add: chainSteps_def chainNoStepFails_def)
    show ?thesis
    proof (cases l)
      case None
      with chainLoop_None_iff [OF l] have "\<not> noStepFails rnd s2 cfg 0 start"
        "stepsBeforeFailure rnd s2 cfg 0 start < 3" by simp_all
      moreover from b Some mm r l None have "fst (generateChain rnd s cfg) = None"
        by (simp add: generateChain_def)
      ultimately show ?thesis using cs cn by simp
    next
      case (Some ps)
      from chainLoop_None_iff [OF l] Some
      have ok: "noStepFails rnd s2 cfg 0 start \<or> 3 \<le> stepsBeforeFailure rnd s2 cfg 0 start"
        by auto
      from l Some chainLoop_Some_length [of rnd s2 cfg 0 start "[]" ps s3]
      have len: "length ps = stepsBeforeFailure rnd s2 cfg 0 start" by simp
      from b \<open>b = Some mm\<close> mm r l Some
      have "(fst (generateChain rnd s cfg) = None) = (length ps = 0)"
        by (simp add: generateChain_def split: prod.splits)
      with ok len cs cn show ?thesis by auto
    qed
  qed
next
  assume g: "generateChain rnd s cfg = (Some chain, s')"
  from generateChain_Some [OF g] obtain mn mx s1 s2 s3 where
    b: "startBounds rnd s cfg = (Some (mn, mx), s1)" and
    r: "randomInt rnd s1 mn mx = (startingNumber chain, s2)" and
    l: "chainLoop rnd s2 cfg 0 (startingNumber chain) [] = (Some (problems chain), s3)"
    by auto
  from chainLoop_Some_length [OF l] b r
  show "length (problems chain) = chainSteps rnd s cfg" by (simp add: chainSteps_def)
qed

lemma chainNoStepFails_steps:
  assumes "chainNoStepFails rnd s cfg"
  shows "int (chainSteps rnd s cfg) = max 0 (chainLength cfg)"
proof -
  obtain b s1 where b: "startBounds rnd s cfg = (b, s1)" by (cases "startBounds rnd s cfg")
  from assms b obtain mn mx where bs: "b = Some (mn, mx)"
    by (cases b) (auto simp: chainNoStepFails_def)
  obtain start s2 where r: "randomInt rnd s1 mn mx = (start, s2)"
    by (cases "randomInt rnd s1 mn mx")
  from assms b bs r have "noStepFails rnd s2 cfg 0 start" by (simp add: chainNoStepFails_def)
  from noStepFails_steps [OF this] b bs r show ?thesis by (simp add: chainSteps_def)
qed

lemma nat_diff_Suc: "x < y \<Longrightarrow> nat (y - x) = Suc (nat (y - (x + 1)))" for x y :: int
  by simp

lemma worksheetLoop_trace:
  "worksheetLoop rnd s cfg chns attempts = (out, a, s') \<Longrightarrow>
   attempts \<le> a \<and>
   out = chns @ acceptedAfter rnd s cfg (nat (a - attempts)) \<and>
   (\<forall>k < nat (a - attempts).
      int (length (chns @ acceptedAfter rnd s cfg k)) < chainCount cfg \<and>
      attempts + int k < chainCount cfg * 3) \<and>
   \<not> (int (length out) < chainCount cfg \<and> a < chainCount cfg * 3)"
proof (induction rnd s cfg chns attempts rule: worksheetLoop.induct)
  case (1 rnd s cfg chns attempts)
  show ?case
  proof (cases "int (length chns) < chainCount cfg \<and> attempts < chainCount cfg * 3")
    case False
    with "1.prems" have "out = chns" "a = attempts" by (simp_all add: worksheetLoop.simps)
    with False show ?thesis by simp
  next
    case True
    obtain r s1 where g: "generateChain rnd s cfg = (r, s1)"
      by (cases "generateChain rnd s cfg")
    define chns' where
      "chns' = (case r of None \<Rightarrow> chns
                | Some chain \<Rightarrow> if length (problems chain) \<ge> 3 then chns @ [chain] else chns)"
    have l: "worksheetLoop rnd s1 cfg chns' (attempts + 1) = (out, a, s')"
      using True g "1.prems" unfolding chns'_def
      by (cases r) (simp_all add: worksheetLoop.simps [of rnd s])
    have ih: "attempts + 1 \<le> a \<and>
              out = chns' @ acceptedAfter rnd s1 cfg (nat (a - (attempts + 1))) \<and>
              (\<forall>k < nat (a - (attempts + 1)).
                 int (length (chns' @ acceptedAfter rnd s1 cfg k)) < chainCount cfg \<and>
                 attempts + 1 + int k < chainCount cfg * 3) \<and>
              \<not> (int (length out) < chainCount cfg \<and> a < chainCount cfg * 3)"
    proof (cases r)
      case None
      with l have "worksheetLoop rnd s1 cfg chns (attempts + 1) = (out, a, s')"
        by (simp add: chns'_def)
      from "1.IH"(1) [OF True g [symmetric] None this] None show ?thesis
        by (simp add: chns'_def)
    next
      case (Some chain)
      with l have "worksheetLoop rnd s1 cfg
                     (if length (problems chain) \<ge> 3 then chns @ [chain] else chns)
                     (attempts + 1) = (out, a, s')"
        by (simp add: chns'_def)
      from "1.IH"(2) [OF True g [symmetric] Some this] Some show ?thesis
        by (simp add: chns'_def)
    qed
    have step: "chns @ acceptedAfter rnd s cfg (Suc k) = chns' @ acceptedAfter rnd s1 cfg k" for k
      using g unfolding chns'_def by (cases r) simp_all
    note ex = ih [THEN conjunct2, THEN conjunct2, THEN conjunct2]
    from ih have lt: "attempts < a" by simp
    then have n: "nat (a - attempts) = Suc (nat (a - (attempts + 1)))" by (rule nat_diff_Suc)
    have all: "int (length (chns @ acceptedAfter rnd s cfg k)) < chainCount cfg \<and>
               attempts + int k < chainCount cfg * 3"
      if "k < nat (a - attempts)" for k
    proof (cases k)
      case 0
      with True show ?thesis by simp
    next
      case (Suc j)
      with that n have "j < nat (a - (attempts + 1))" by simp
      with ih have "int (length (chns' @ acceptedAfter rnd s1 cfg j)) < chainCount cfg \<and>
                    attempts + 1 + int j < chainCount cfg * 3" by blast
      with Suc step [of j] show ?thesis by simp
    qed
    from ih n step have eq: "out = chns @ acceptedAfter rnd s cfg (nat (a - attempts))" by simp
    show ?thesis
    proof (intro conjI allI impI)
      show "attempts \<le> a" using lt by simp
      show "out = chns @ acceptedAfter rnd s cfg (nat (a - attempts))" by (rule eq)
      show "\<not> (int (length out) < chainCount cfg \<and> a < chainCount cfg * 3)" by (rule ex)
    next
      fix k assume "k < nat (a - attempts)"
      from all [OF this]
      show "int (length (chns @ acceptedAfter rnd s cfg k)) < chainCount cfg"
        "attempts + int k < chainCount cfg * 3" by simp_all
    qed
  qed
qed


section \<open>Claims\<close>

text \<open>
  C8. Operation selection is total and is the cumulative walk in the fixed order add,
  subtract, multiply, divide: for every mix (whatever its four numbers are and whatever
  they sum to) and every draw, \<open>selectOperationByMix\<close> returns the first operation whose
  cumulative threshold exceeds the draw scaled to \<open>[0, 100)\<close>, and \<open>Divide\<close> when none
  does; it consumes one draw.
\<close>

theorem selectOperationByMix_walk:
  "selectOperationByMix rnd s mix = (cumulativeWalk mix (rnd s * 100), s + 1)"
  by (simp add: selectOperationByMix_def Math_random_def cumulativeWalk_def
      cumulativeThreshold_def fixedOrder_def operationMixAt_def Let_def add.assoc)

text \<open>
  C6 (amended). For the operation add and draws in \<open>[0, 1)\<close>, the operand search
  returns no operand exactly when the range \<open>[minV, min(maxV, maxResult - currentValue)]\<close>
  is empty, and an operand of that range otherwise. The range is empty exactly when
  \<open>maxResult - currentValue < minV\<close> or \<open>maxV < minV\<close>: the second guard of the
  source (\<^verbatim>\<open>if (max < min) return null\<close>) covers bounds given in the wrong order.
\<close>

theorem add_operand_contract:
  assumes "unitDraws rnd"
  shows "((fst (generateOperand rnd s Add currentValue cfg) = None) =
            (snd (addRange cfg currentValue) < fst (addRange cfg currentValue))) \<and>
         (\<forall>v. fst (generateOperand rnd s Add currentValue cfg) = Some v \<longrightarrow>
            fst (addRange cfg currentValue) \<le> v \<and> v \<le> snd (addRange cfg currentValue)) \<and>
         ((snd (addRange cfg currentValue) < fst (addRange cfg currentValue)) =
            (maxResult cfg - currentValue < minValue (ops_add (operations cfg)) \<or>
             maxValue (ops_add (operations cfg)) < minValue (ops_add (operations cfg))))"
proof -
  let ?mn = "minValue (ops_add (operations cfg))"
  let ?mx = "min (maxValue (ops_add (operations cfg))) (maxResult cfg - currentValue)"
  show ?thesis
  proof (cases "?mx < ?mn")
    case True
    then show ?thesis
      by (auto simp: generateOperand_def operationsAt_def addRange_def Let_def)
  next
    case False
    obtain v s1 where d: "randomInt rnd s ?mn ?mx = (v, s1)" by (cases "randomInt rnd s ?mn ?mx")
    from False have "?mn \<le> ?mx" by linarith
    from randomInt_bounds [OF assms this d] have "?mn \<le> v \<and> v \<le> ?mx" .
    moreover have "generateOperand rnd s Add currentValue cfg = (Some v, s1)"
      using False d by (auto simp: generateOperand_def operationsAt_def Let_def)
    ultimately show ?thesis using False
      by (auto simp: addRange_def)
  qed
qed

theorem add_operand_contract_witness:
  "unitDraws halfDraws \<and> fst (generateOperand halfDraws 0 Add 25 DEFAULT_CONFIG) = Some 11 \<and>
   addRange DEFAULT_CONFIG 25 = (1, 20) \<and> (1::int) \<le> 11 \<and> (11::int) \<le> 20"
proof -
  have e: "fst (generateOperand halfDraws 0 Add 25 DEFAULT_CONFIG) = Some 11" by code_simp
  have r: "addRange DEFAULT_CONFIG 25 = (1, 20)" by code_simp
  from add_operand_contract [OF unitDraws_halfDraws, of 0 25 DEFAULT_CONFIG] e r
  show ?thesis using unitDraws_halfDraws by simp
qed

theorem add_operand_contract_counterexample:
  "fst (generateOperand halfDraws 0 Add 10 invertedAddConfig) = None \<and>
   \<not> (maxResult invertedAddConfig - 10 < minValue (ops_add (operations invertedAddConfig)))"
  by code_simp

text \<open>
  C1 (amended). For every configuration with \<open>chainLength \<ge> 3\<close>, a chain that
  \<open>generateChain\<close> returns has at least three problems. In every configuration a
  returned chain has as many problems as the loop accumulated (\<open>chainSteps\<close>), and
  \<open>generateChain\<close> returns \<open>None\<close> exactly when nothing was accumulated or a generation
  step failed with fewer than three problems accumulated. When no step fails and
  \<open>chainLength \<ge> 1\<close>, a chain of exactly \<open>chainLength\<close> problems is returned, also
  for a \<open>chainLength\<close> of one or two: the source returns \<^verbatim>\<open>null\<close> after the loop only
  for an empty array, and \<^verbatim>\<open>generateWorksheet\<close> filters the short chains out itself.
\<close>

theorem generateChain_minimum:
  "(generateChain rnd s cfg = (Some chain, s') \<and> 3 \<le> chainLength cfg \<longrightarrow>
      3 \<le> length (problems chain)) \<and>
   (generateChain rnd s cfg = (Some chain, s') \<longrightarrow>
      length (problems chain) = chainSteps rnd s cfg \<and>
      (chainNoStepFails rnd s cfg \<or> 3 \<le> length (problems chain))) \<and>
   ((fst (generateChain rnd s cfg) = None) =
      (chainSteps rnd s cfg = 0 \<or>
       \<not> chainNoStepFails rnd s cfg \<and> chainSteps rnd s cfg < 3)) \<and>
   (chainNoStepFails rnd s cfg \<and> 1 \<le> chainLength cfg \<longrightarrow>
      (case fst (generateChain rnd s cfg) of
         None \<Rightarrow> False
       | Some c \<Rightarrow> int (length (problems c)) = chainLength cfg))"
proof (intro conjI impI)
  assume a: "generateChain rnd s cfg = (Some chain, s') \<and> 3 \<le> chainLength cfg"
  from generateChain_Some [of rnd s cfg chain s'] a obtain s2 s3 where
    l: "chainLoop rnd s2 cfg 0 (startingNumber chain) [] = (Some (problems chain), s3)"
    by auto
  from a have "0 \<le> chainLength cfg" by simp
  from chainLoop_length [OF l this] a show "3 \<le> length (problems chain)" by auto
next
  assume g: "generateChain rnd s cfg = (Some chain, s')"
  from generateChain_outcome(2) [OF g]
  show len: "length (problems chain) = chainSteps rnd s cfg" .
  from g have "fst (generateChain rnd s cfg) \<noteq> None" by simp
  with generateChain_outcome(1) [of rnd s cfg] len
  show "chainNoStepFails rnd s cfg \<or> 3 \<le> length (problems chain)" by auto
next
  show "(fst (generateChain rnd s cfg) = None) =
      (chainSteps rnd s cfg = 0 \<or>
       \<not> chainNoStepFails rnd s cfg \<and> chainSteps rnd s cfg < 3)"
    by (rule generateChain_outcome(1))
next
  assume a: "chainNoStepFails rnd s cfg \<and> 1 \<le> chainLength cfg"
  then have n: "int (chainSteps rnd s cfg) = chainLength cfg"
    using chainNoStepFails_steps [of rnd s cfg] by simp
  with a have "chainSteps rnd s cfg \<noteq> 0" by auto
  with a generateChain_outcome(1) [of rnd s cfg]
  obtain c where c: "fst (generateChain rnd s cfg) = Some c" by auto
  then have "generateChain rnd s cfg = (Some c, snd (generateChain rnd s cfg))"
    by (cases "generateChain rnd s cfg") simp
  from generateChain_outcome(2) [OF this] n c
  show "case fst (generateChain rnd s cfg) of
          None \<Rightarrow> False
        | Some c \<Rightarrow> int (length (problems c)) = chainLength cfg"
    by simp
qed

theorem generateChain_minimum_witness:
  "generateChain halfDraws 0 DEFAULT_CONFIG = (Some defaultChain, 39) \<and>
   3 \<le> chainLength DEFAULT_CONFIG \<and> 3 \<le> length (problems defaultChain) \<and>
   \<not> chainNoStepFails halfDraws 0 stuckConfig \<and> chainSteps halfDraws 0 stuckConfig = 1 \<and>
   fst (generateChain halfDraws 0 stuckConfig) = None \<and>
   chainNoStepFails halfDraws 0 shortChainConfig \<and> 1 \<le> chainLength shortChainConfig \<and>
   fst (generateChain halfDraws 0 shortChainConfig) = Some shortChain \<and>
   int (length (problems shortChain)) = chainLength shortChainConfig"
proof -
  have c: "3 \<le> chainLength DEFAULT_CONFIG" "1 \<le> chainLength shortChainConfig"
    by (simp_all add: DEFAULT_CONFIG_def shortChainConfig_def)
  have "3 \<le> length (problems defaultChain)"
    using generateChain_minimum [where rnd = halfDraws and s = 0 and cfg = DEFAULT_CONFIG
        and chain = defaultChain and s' = 39]
      generateChain_default c by simp
  moreover have "fst (generateChain halfDraws 0 stuckConfig) = None"
    using generateChain_minimum [where rnd = halfDraws and s = 0 and cfg = stuckConfig]
      chainSteps_stuck chainNoStepFails_stuck by simp
  moreover have "int (length (problems shortChain)) = chainLength shortChainConfig"
    using generateChain_minimum [where rnd = halfDraws and s = 0 and cfg = shortChainConfig
        and chain = shortChain and s' = 8]
      chainNoStepFails_short c generateChain_short by simp
  ultimately show ?thesis
    using generateChain_default generateChain_short chainSteps_stuck chainNoStepFails_stuck
      chainNoStepFails_short c
    by simp
qed

theorem generateChain_minimum_counterexample:
  "generateChain halfDraws 0 shortChainConfig = (Some shortChain, 8) \<and>
   length (problems shortChain) = 2"
  using generateChain_short by (simp add: shortChain_def)

text \<open>
  C10. For every configuration with \<open>chainLength \<ge> 1\<close>, a chain that \<open>generateChain\<close>
  returns has at least \<open>min 3 chainLength\<close> and at most \<open>chainLength\<close> problems, and
  exactly \<open>chainLength\<close> when no generation step fails.
\<close>

theorem generateChain_length:
  assumes "1 \<le> chainLength cfg" "generateChain rnd s cfg = (Some chain, s')"
  shows "min 3 (chainLength cfg) \<le> int (length (problems chain)) \<and>
         int (length (problems chain)) \<le> chainLength cfg \<and>
         (chainNoStepFails rnd s cfg \<longrightarrow> int (length (problems chain)) = chainLength cfg)"
proof -
  from generateChain_Some [OF assms(2)] obtain mn mx s1 s2 s3 where
    b: "startBounds rnd s cfg = (Some (mn, mx), s1)" and
    r: "randomInt rnd s1 mn mx = (startingNumber chain, s2)" and
    l: "chainLoop rnd s2 cfg 0 (startingNumber chain) [] = (Some (problems chain), s3)"
    by auto
  from assms(1) have "0 \<le> chainLength cfg" by simp
  from chainLoop_length [OF l this]
  have f: "int (length (problems chain)) \<le> chainLength cfg"
    "3 \<le> length (problems chain) \<or> int (length (problems chain)) = chainLength cfg"
    "noStepFails rnd s2 cfg 0 (startingNumber chain) \<longrightarrow>
       int (length (problems chain)) = chainLength cfg"
    by simp_all
  have "chainNoStepFails rnd s cfg = noStepFails rnd s2 cfg 0 (startingNumber chain)"
    using b r by (simp add: chainNoStepFails_def)
  with f show ?thesis by auto
qed

theorem generateChain_length_witness:
  "1 \<le> chainLength shortChainConfig \<and>
   generateChain halfDraws 0 shortChainConfig = (Some shortChain, 8) \<and>
   chainNoStepFails halfDraws 0 shortChainConfig \<and>
   int (length (problems shortChain)) = chainLength shortChainConfig"
proof -
  have c: "1 \<le> chainLength shortChainConfig"
    by (simp add: shortChainConfig_def DEFAULT_CONFIG_def)
  have n: "chainNoStepFails halfDraws 0 shortChainConfig" by code_simp
  from generateChain_length [OF c generateChain_short] n c generateChain_short
  show ?thesis by simp
qed





text \<open>
  C4. Divide contract, for draws in \<open>[0, 1)\<close>: the operand search for a division
  returns no operand whenever \<open>currentValue \<le> 0\<close>; otherwise it returns a valid
  divisor (in \<open>[minV, min(maxV, currentValue)]\<close>, dividing \<open>currentValue\<close>, with the
  quotient in \<open>[1, maxResult]\<close>) and fails exactly when none exists. Hence every division
  problem of a generated chain has a non-zero operand, \<open>startValue mod operand = 0\<close> and
  an integer result, the exact quotient.
\<close>

theorem divide_contract:
  assumes "unitDraws rnd"
  shows "(currentValue \<le> 0 \<longrightarrow> fst (generateOperand rnd s Divide currentValue cfg) = None) \<and>
         (0 < currentValue \<longrightarrow>
            (case fst (generateOperand rnd s Divide currentValue cfg) of
               None \<Rightarrow> \<not> (\<exists>d. isValidDivisor cfg currentValue d)
             | Some d \<Rightarrow> isValidDivisor cfg currentValue d)) \<and>
         (generateChain rnd s0 cfg = (Some chain, s') \<longrightarrow>
            list_all (\<lambda>p. operation p = Divide \<longrightarrow>
                        operand p \<noteq> 0 \<and>
                        startValue p mod operand p = 0 \<and>
                        result p * operand p = startValue p) (problems chain))"
proof (intro conjI impI)
  assume "currentValue \<le> 0"
  then show "fst (generateOperand rnd s Divide currentValue cfg) = None"
    by (simp add: generateOperand_Divide_nonpositive)
next
  assume "0 < currentValue"
  with assms show "case fst (generateOperand rnd s Divide currentValue cfg) of
               None \<Rightarrow> \<not> (\<exists>d. isValidDivisor cfg currentValue d)
             | Some d \<Rightarrow> isValidDivisor cfg currentValue d"
    by (rule generateOperand_Divide_contract)
next
  assume g: "generateChain rnd s0 cfg = (Some chain, s')"
  show "list_all (\<lambda>p. operation p = Divide \<longrightarrow>
                        operand p \<noteq> 0 \<and>
                        startValue p mod operand p = 0 \<and>
                        result p * operand p = startValue p) (problems chain)"
  proof (rule generateChain_all [OF g, where I = "\<lambda>v. True"])
    fix v p
    assume "producedFrom rnd cfg v p"
    from producedFrom_Divide [OF this]
    show "(operation p = Divide \<longrightarrow>
            operand p \<noteq> 0 \<and>
            startValue p mod operand p = 0 \<and> result p * operand p = startValue p) \<and> True"
      by auto
  qed simp
qed

theorem divide_contract_witness:
  "unitDraws halfDraws \<and>
   fst (generateOperand halfDraws 0 Divide 0 divideConfig) = None \<and>
   fst (generateOperand halfDraws 0 Divide 30 divideConfig) = Some 5 \<and>
   isValidDivisor divideConfig 30 5 \<and>
   generateChain halfDraws 0 divideConfig = (Some divideChain, 12) \<and>
   list_all (\<lambda>p. operation p = Divide \<and> operand p \<noteq> 0 \<and> startValue p mod operand p = 0 \<and>
                 result p * operand p = startValue p) (problems divideChain)"
proof -
  have e: "fst (generateOperand halfDraws 0 Divide 30 divideConfig) = Some 5" by code_simp
  have "fst (generateOperand halfDraws 0 Divide 0 divideConfig) = None"
    using divide_contract [OF unitDraws_halfDraws, of 0 0 divideConfig] by simp
  moreover have "isValidDivisor divideConfig 30 5"
    using divide_contract [OF unitDraws_halfDraws, of 30 0 divideConfig] e by simp
  moreover have "list_all (\<lambda>p. operation p = Divide \<and> operand p \<noteq> 0 \<and>
                 startValue p mod operand p = 0 \<and>
                 result p * operand p = startValue p) (problems divideChain)"
    using divide_contract [OF unitDraws_halfDraws, of 0 0 divideConfig 0 divideChain 12]
      generateChain_divide
    by (simp add: divideChain_def)
  ultimately show ?thesis using e unitDraws_halfDraws generateChain_divide by simp
qed

text \<open>
  C9. Division results are strictly positive: for every configuration, whether negative
  results are allowed or not, every division problem of a generated chain has its result
  in \<open>[1, maxResult]\<close> and its operand at most its start value.
\<close>

theorem divide_results_positive:
  assumes "generateChain rnd s cfg = (Some chain, s')"
  shows "list_all (\<lambda>p. operation p = Divide \<longrightarrow>
                     1 \<le> result p \<and> result p \<le> maxResult cfg \<and> operand p \<le> startValue p)
           (problems chain)"
proof (rule generateChain_all [OF assms, where I = "\<lambda>v. True"])
  fix v p
  assume "producedFrom rnd cfg v p"
  from producedFrom_Divide [OF this]
  show "(operation p = Divide \<longrightarrow>
          1 \<le> result p \<and> result p \<le> maxResult cfg \<and> operand p \<le> startValue p) \<and> True"
    by simp
qed simp

theorem divide_results_positive_witness:
  "generateChain halfDraws 0 divideConfig = (Some divideChain, 12) \<and>
   list_all (\<lambda>p. operation p = Divide \<and> 1 \<le> result p \<and> result p \<le> maxResult divideConfig \<and>
                 operand p \<le> startValue p) (problems divideChain)"
  using divide_results_positive [OF generateChain_divide] generateChain_divide
  by (simp add: divideChain_def)



text \<open>
  C2 (amended). Bounds invariant, for draws in \<open>[0, 1)\<close>: every problem of every chain
  that \<open>generateChain\<close> returns, and of every chain of every worksheet, has
  \<open>result \<le> maxResult\<close>; \<open>1 \<le> result\<close> when \<open>allowNegativeResults\<close> is false; and
  \<open>- maxResult \<le> result\<close> when it is true, provided \<open>maxResult \<ge> 0\<close> and the least
  operands configured for addition and multiplication are not negative. The source checks
  the lower bound \<open>- maxResult\<close> only in the operand range of a subtraction.
\<close>

theorem result_bounds:
  assumes "unitDraws rnd"
  shows "(generateChain rnd s cfg = (Some chain, s') \<longrightarrow> boundsHold cfg (problems chain)) \<and>
         list_all (\<lambda>c. boundsHold cfg (problems c)) (chains (fst (generateWorksheet rnd s0 cfg)))"
proof
  show "generateChain rnd s cfg = (Some chain, s') \<longrightarrow> boundsHold cfg (problems chain)"
    using generateChain_bounds [OF assms] by blast
next
  obtain out a s1 where w: "worksheetLoop rnd s0 cfg [] 0 = (out, a, s1)"
    by (cases "worksheetLoop rnd s0 cfg [] 0")
  have "list_all (\<lambda>c. boundsHold cfg (problems c)) out"
    by (rule worksheetLoop_invariant [OF w]) (simp_all add: generateChain_bounds [OF assms])
  moreover have "chains (fst (generateWorksheet rnd s0 cfg)) = out"
    using w by (simp add: generateWorksheet_def split: prod.splits)
  ultimately show "list_all (\<lambda>c. boundsHold cfg (problems c))
                     (chains (fst (generateWorksheet rnd s0 cfg)))"
    by simp
qed

theorem result_bounds_witness:
  "unitDraws halfDraws \<and>
   generateChain halfDraws 0 DEFAULT_CONFIG = (Some defaultChain, 39) \<and>
   \<not> allowNegativeResults DEFAULT_CONFIG \<and>
   list_all (\<lambda>p. 1 \<le> result p \<and> result p \<le> maxResult DEFAULT_CONFIG) (problems defaultChain) \<and>
   generateChain halfDraws 0 negativeConfig = (Some negativeChain, 20) \<and>
   allowNegativeResults negativeConfig \<and>
   list_all (\<lambda>p. - maxResult negativeConfig \<le> result p \<and> result p \<le> maxResult negativeConfig)
     (problems negativeChain)"
proof -
  have "boundsHold DEFAULT_CONFIG (problems defaultChain)"
    using result_bounds [OF unitDraws_halfDraws, of 0 DEFAULT_CONFIG defaultChain 39]
      generateChain_default by simp
  then have a: "list_all (\<lambda>p. 1 \<le> result p \<and> result p \<le> maxResult DEFAULT_CONFIG)
                  (problems defaultChain)"
    by (simp add: boundsHold_def DEFAULT_CONFIG_def defaultChain_def)
  have "boundsHold negativeConfig (problems negativeChain)"
    using result_bounds [OF unitDraws_halfDraws, of 0 negativeConfig negativeChain 20]
      generateChain_negative by simp
  then have b: "list_all (\<lambda>p. - maxResult negativeConfig \<le> result p \<and>
                             result p \<le> maxResult negativeConfig) (problems negativeChain)"
    by (simp add: boundsHold_def negativeConfig_def DEFAULT_CONFIG_def negativeChain_def)
  from a b unitDraws_halfDraws generateChain_default generateChain_negative
  show ?thesis by (simp add: DEFAULT_CONFIG_def negativeConfig_def)
qed

theorem result_bounds_counterexample:
  "generateChain halfDraws 0 negativeAddConfig = (Some negativeAddChain, 11) \<and>
   allowNegativeResults negativeAddConfig \<and>
   result (problems negativeAddChain ! 0) = - 215 \<and>
   \<not> (- maxResult negativeAddConfig \<le> result (problems negativeAddChain ! 0))"
  using generateChain_negativeAdd
  by (simp add: negativeAddChain_def negativeAddConfig_def DEFAULT_CONFIG_def)

text \<open>
  C7 (amended). Worksheet assembly: for every configuration \<open>generateWorksheet\<close> returns
  a worksheet with the configuration and the chains of the retry loop, which terminates;
  the worksheet has at most \<open>max 0 chainCount\<close> chains, each of at least three problems;
  the loop makes at most \<open>max 0 (chainCount * 3)\<close> attempts, and for \<open>chainCount \<ge> 0\<close>
  it ends with \<open>chainCount\<close> chains accepted or with \<open>chainCount * 3\<close> attempts made.
  It stops as soon as either holds: the chains are those accepted in the attempts made,
  before each attempt fewer than \<open>chainCount\<close> chains were accepted and fewer than
  \<open>chainCount * 3\<close> attempts were made, and after the last one this is no longer so.
\<close>

theorem worksheet_assembly:
  "case worksheetLoop rnd s cfg [] 0 of
     (chns, attempts, s1) \<Rightarrow>
       chains (fst (generateWorksheet rnd s cfg)) = chns \<and>
       config (fst (generateWorksheet rnd s cfg)) = cfg \<and>
       int (length chns) \<le> max 0 (chainCount cfg) \<and>
       list_all (\<lambda>c. 3 \<le> length (problems c)) chns \<and>
       0 \<le> attempts \<and> attempts \<le> max 0 (chainCount cfg * 3) \<and>
       (0 \<le> chainCount cfg \<longrightarrow>
          int (length chns) = chainCount cfg \<or> attempts = chainCount cfg * 3) \<and>
       chns = acceptedAfter rnd s cfg (nat attempts) \<and>
       (\<forall>k. k < nat attempts \<longrightarrow>
          int (length (acceptedAfter rnd s cfg k)) < chainCount cfg \<and>
          int k < chainCount cfg * 3) \<and>
       \<not> (int (length chns) < chainCount cfg \<and> attempts < chainCount cfg * 3)"
proof -
  obtain out a s1 where w: "worksheetLoop rnd s cfg [] 0 = (out, a, s1)"
    by (cases "worksheetLoop rnd s cfg [] 0")
  have "int (length out) \<le> max 0 (chainCount cfg) \<and> 0 \<le> a \<and>
         a \<le> max 0 (chainCount cfg * 3) \<and>
         list_all (\<lambda>c. 3 \<le> length (problems c)) out \<and>
         (chainCount cfg \<le> int (length out) \<or> chainCount cfg * 3 \<le> a)"
    by (rule worksheetLoop_facts [OF w]) simp_all
  moreover have "chains (fst (generateWorksheet rnd s cfg)) = out"
    "config (fst (generateWorksheet rnd s cfg)) = cfg"
    using w by (simp_all add: generateWorksheet_def split: prod.splits)
  moreover from worksheetLoop_trace [OF w]
  have "out = acceptedAfter rnd s cfg (nat a)"
    "\<forall>k. k < nat a \<longrightarrow>
          int (length (acceptedAfter rnd s cfg k)) < chainCount cfg \<and>
          int k < chainCount cfg * 3"
    "\<not> (int (length out) < chainCount cfg \<and> a < chainCount cfg * 3)"
    by simp_all
  ultimately show ?thesis using w by auto
qed

theorem worksheet_assembly_witness:
  "worksheetLoop halfDraws 0 smallWorksheetConfig [] 0 = ([smallChain, smallChain], 2, 22) \<and>
   chains (fst (generateWorksheet halfDraws 0 smallWorksheetConfig)) = [smallChain, smallChain] \<and>
   0 \<le> chainCount smallWorksheetConfig \<and>
   int (length [smallChain, smallChain]) = chainCount smallWorksheetConfig \<and>
   acceptedAfter halfDraws 0 smallWorksheetConfig 2 = [smallChain, smallChain] \<and>
   int (length (acceptedAfter halfDraws 0 smallWorksheetConfig 1)) < chainCount smallWorksheetConfig \<and>
   worksheetLoop halfDraws 0 stuckWorksheetConfig [] 0 = ([], 3, 72) \<and>
   acceptedAfter halfDraws 0 stuckWorksheetConfig 3 = [] \<and>
   (3::int) = chainCount stuckWorksheetConfig * 3"
proof -
  have c: "chainCount smallWorksheetConfig = 2" "chainCount stuckWorksheetConfig = 1"
    by (simp_all add: smallWorksheetConfig_def stuckWorksheetConfig_def DEFAULT_CONFIG_def)
  from worksheet_assembly [of halfDraws 0 smallWorksheetConfig] worksheetLoop_small
  have a: "chains (fst (generateWorksheet halfDraws 0 smallWorksheetConfig)) =
             [smallChain, smallChain]"
    and b: "[smallChain, smallChain] = acceptedAfter halfDraws 0 smallWorksheetConfig (nat 2)"
    and d: "\<forall>k. k < nat 2 \<longrightarrow>
          int (length (acceptedAfter halfDraws 0 smallWorksheetConfig k))
            < chainCount smallWorksheetConfig \<and>
          int k < chainCount smallWorksheetConfig * 3"
    by simp_all
  from d [rule_format, of 1]
  have e: "int (length (acceptedAfter halfDraws 0 smallWorksheetConfig 1))
             < chainCount smallWorksheetConfig"
    by (simp del: acceptedAfter.simps)
  from b have b': "acceptedAfter halfDraws 0 smallWorksheetConfig 2 = [smallChain, smallChain]"
    by simp
  from worksheet_assembly [of halfDraws 0 stuckWorksheetConfig] worksheetLoop_stuck
  have f: "[] = acceptedAfter halfDraws 0 stuckWorksheetConfig (nat 3)" by simp
  then have f': "acceptedAfter halfDraws 0 stuckWorksheetConfig 3 = []" by simp
  from a b' e f' c worksheetLoop_small worksheetLoop_stuck show ?thesis
    by (simp del: acceptedAfter.simps)
qed

theorem worksheet_assembly_counterexample:
  "chains (fst (generateWorksheet halfDraws 0 noChainsConfig)) = [] \<and>
   \<not> (int (length (chains (fst (generateWorksheet halfDraws 0 noChainsConfig))))
        \<le> chainCount noChainsConfig)"
  by code_simp

text \<open>
  C5. Identifiers are not unique for every behaviour of the random source: an identifier
  is a function of one draw, and nothing compares it with the identifiers given before.
  When every draw is \<open>0.5\<close>, every chain and every problem of the worksheet has the
  identifier \<^verbatim>\<open>i\<close> (\<^verbatim>\<open>(0.5).toString(36)\<close> is \<^verbatim>\<open>0.i\<close>).
\<close>

theorem generateWorksheet_id_collision:
  "map chainId (chains (fst (generateWorksheet halfDraws 0 smallWorksheetConfig))) = [''i'', ''i''] \<and>
   map problemId (problems (chains (fst (generateWorksheet halfDraws 0 smallWorksheetConfig)) ! 0))
     = [''i'', ''i'', ''i''] \<and>
   \<not> distinct (map chainId (chains (fst (generateWorksheet halfDraws 0 smallWorksheetConfig))))"
  using generateWorksheet_small by (simp add: smallChain_def)

end
